theory Spec2Isabelle
  imports Main
begin

section \<open>Python values and exceptions\<close>

text \<open>
  The bridge of \<^verbatim>\<open>Sports2DUnityBridge.py\<close> handles frame records: nested Python values made
  of lists, dicts, tuples, scalars, array-like objects (anything with a \<^verbatim>\<open>tolist\<close> method), and
  whatever else the producer puts into them.

  A Python \<^verbatim>\<open>str\<close> is a sequence of Unicode code points; bytes are 8-bit characters.
\<close>

type_synonym pystr = "nat list"
type_synonym bytes = "char list"

text \<open>The exceptions this program can meet.\<close>

datatype exn =
    SocketError          \<comment> \<open>\<^verbatim>\<open>socket.error\<close>, an alias of \<^verbatim>\<open>OSError\<close>\<close>
  | TypeError
  | ValueError
  | RecursionError
  | UnicodeEncodeError
  | OverflowError
  | AttributeError
  | KeyboardInterrupt    \<comment> \<open>a \<^verbatim>\<open>BaseException\<close>, not an \<^verbatim>\<open>Exception\<close>\<close>
  | OtherException       \<comment> \<open>any other subclass of \<^verbatim>\<open>Exception\<close>\<close>

text \<open>
  Dictionary keys. \<^verbatim>\<open>KOther\<close> stands for a hashable key of any other type (a tuple, say).
  A float is carried as the text \<^verbatim>\<open>float.__repr__\<close> prints for it: the program never
  computes with floats, it only prints them. That text is \<^verbatim>\<open>nan\<close>, \<^verbatim>\<open>inf\<close>, \<^verbatim>\<open>-inf\<close>, or a
  numeral made of digits, a point, signs and an exponent mark.
\<close>

datatype fsym = FDigit nat | FPoint | FMinus | FPlus | FExp

datatype pyfloat = FNan | FInf | FNegInf | FRepr "fsym list"

datatype pykey =
    KStr pystr
  | KInt int
  | KBool bool
  | KNone
  | KFloat pyfloat
  | KOther nat

text \<open>
  Values. A dict is the list of its items in insertion order (its keys are distinct).
  \<^verbatim>\<open>PArray t\<close> is an object with a \<^verbatim>\<open>tolist\<close> method that is no list, dict, tuple, string
  or Python number (a numpy array, say), so the serializer does not know it; \<^verbatim>\<open>t\<close> is what
  its \<^verbatim>\<open>tolist()\<close> returns. \<^verbatim>\<open>PObj n\<close> is any other object (a socket, a file handle),
  identified by \<^verbatim>\<open>n\<close>. \<^verbatim>\<open>PBack n\<close> is a reference back to the \<^verbatim>\<open>n\<close>-th enclosing
  container, counted from the innermost: this is how a cyclic structure is written down
  as a finite term (\<^verbatim>\<open>L = []; L.append(L)\<close> is \<^verbatim>\<open>PList [PBack 0]\<close>).
\<close>

datatype pyval =
    PNone
  | PBool bool
  | PInt int
  | PFloat pyfloat
  | PStr pystr
  | PList "pyval list"
  | PDict "(pykey \<times> pyval) list"
  | PTuple "pyval list"
  | PArray pyval
  | PObj nat
  | PBack nat

section \<open>Results that may be exceptions\<close>

text \<open>
  A computation that may raise returns \<open>exn + 'a\<close>, with \<open>Inl\<close> the exception.
  \<open>collect\<close> runs through a list of results from left to right, as a comprehension
  evaluates its elements: the first exception wins.
\<close>

fun collect :: "('e + 'a) list \<Rightarrow> 'e + 'a list" where
  "collect [] = Inr []"
| "collect (Inl e # rs) = Inl e"
| "collect (Inr x # rs) = (case collect rs of Inl e \<Rightarrow> Inl e | Inr xs \<Rightarrow> Inr (x # xs))"

definition on_value :: "('a \<Rightarrow> 'b) \<Rightarrow> 'e + 'a \<Rightarrow> 'e + 'b" where
  "on_value f r = (case r of Inl e \<Rightarrow> Inl e | Inr x \<Rightarrow> Inr (f x))"

section \<open>The encoder's normalization\<close>

text \<open>
  \<^verbatim>\<open>
  def _convert_numpy_to_list(self, item):
      if isinstance(item, list):
          return [self._convert_numpy_to_list(i) for i in item]
      if isinstance(item, dict):
          return {k: self._convert_numpy_to_list(v) for k, v in item.items()}
      if hasattr(item, 'tolist'):
          return item.tolist()
      return item
  \<close>
  The branches are taken in the source's order: lists, dicts (the keys stay, the values
  are converted), objects with \<^verbatim>\<open>tolist\<close> (the result is returned as it is, not walked),
  and everything else, tuples included, unchanged. On a back reference reached through
  lists and dicts the recursion enters the same container again and again, until the
  interpreter raises \<^verbatim>\<open>RecursionError\<close>. (The recursion limit on deep, acyclic values is
  not modelled.)
\<close>

fun convert_numpy_to_list :: "pyval \<Rightarrow> exn + pyval" where
  "convert_numpy_to_list (PList xs) =
     on_value PList (collect (map convert_numpy_to_list xs))"
| "convert_numpy_to_list (PDict kvs) =
     on_value PDict (collect (map (\<lambda>(k, v). on_value (Pair k) (convert_numpy_to_list v)) kvs))"
| "convert_numpy_to_list (PArray t) = Inr t"
| "convert_numpy_to_list (PBack n) = Inl RecursionError"
| "convert_numpy_to_list item = Inr item"


section \<open>Serialization\<close>

text \<open>
  \<^verbatim>\<open>json.dumps\<close> with its defaults (\<^verbatim>\<open>ensure_ascii=True\<close>, \<^verbatim>\<open>check_circular=True\<close>,
  \<^verbatim>\<open>allow_nan=True\<close>, separators \<^verbatim>\<open>', '\<close> and \<^verbatim>\<open>': '\<close>), as the standard library
  documents it. Code points are written as numbers: 34 is the double quote, 92 the
  backslash, 10 the newline.
\<close>

definition py_str :: "string \<Rightarrow> pystr" where
  "py_str s = map of_char s"

definition hexdigit :: "nat \<Rightarrow> nat" where
  "hexdigit d = (if d < 10 then 48 + d else 87 + d)"

definition hex4 :: "nat \<Rightarrow> pystr" where
  "hex4 n = map hexdigit [n div 4096 mod 16, n div 256 mod 16, n div 16 mod 16, n mod 16]"

definition uescape :: "nat \<Rightarrow> pystr" where
  "uescape n = [92, 117] @ hex4 n"

text \<open>
  One character of a string literal: the short escapes, printable ASCII as it is, and
  \<^verbatim>\<open>\uXXXX\<close> for the rest (a surrogate pair above the basic plane).
\<close>

definition escape_char :: "nat \<Rightarrow> pystr" where
  "escape_char c =
     (if c = 92 then [92, 92]
      else if c = 34 then [92, 34]
      else if c = 8 then [92, 98]
      else if c = 12 then [92, 102]
      else if c = 10 then [92, 110]
      else if c = 13 then [92, 114]
      else if c = 9 then [92, 116]
      else if 32 \<le> c \<and> c \<le> 126 then [c]
      else if c < 65536 then uescape c
      else uescape (55296 + (c - 65536) div 1024 mod 1024)
           @ uescape (56320 + (c - 65536) mod 1024))"

definition encode_basestring_ascii :: "pystr \<Rightarrow> pystr" where
  "encode_basestring_ascii s = [34] @ concat (map escape_char s) @ [34]"

fun digits :: "nat \<Rightarrow> pystr" where
  "digits n = (if n < 10 then [48 + n] else digits (n div 10) @ [48 + n mod 10])"

declare digits.simps [simp del]

definition intstr :: "int \<Rightarrow> pystr" where
  "intstr i = (if i < 0 then 45 # digits (nat (- i)) else digits (nat i))"

fun fsym_code :: "fsym \<Rightarrow> nat" where
  "fsym_code (FDigit d) = 48 + d mod 10"
| "fsym_code FPoint = 46"
| "fsym_code FMinus = 45"
| "fsym_code FPlus = 43"
| "fsym_code FExp = 101"

fun floatstr :: "pyfloat \<Rightarrow> pystr" where
  "floatstr FNan = py_str ''NaN''"
| "floatstr FInf = py_str ''Infinity''"
| "floatstr FNegInf = py_str ''-Infinity''"
| "floatstr (FRepr t) = map fsym_code t"

text \<open>
  A dict key is coerced to a string: a \<^verbatim>\<open>str\<close> stays, a float, a bool, \<^verbatim>\<open>None\<close> and an int
  are printed, any other key raises \<^verbatim>\<open>TypeError\<close>.
\<close>

fun key_str :: "pykey \<Rightarrow> exn + pystr" where
  "key_str (KStr s) = Inr s"
| "key_str (KFloat f) = Inr (floatstr f)"
| "key_str (KBool b) = Inr (py_str (if b then ''true'' else ''false''))"
| "key_str KNone = Inr (py_str ''null'')"
| "key_str (KInt i) = Inr (intstr i)"
| "key_str (KOther n) = Inl TypeError"

fun join :: "pystr \<Rightarrow> pystr list \<Rightarrow> pystr" where
  "join sep [] = []"
| "join sep [x] = x"
| "join sep (x # y # ys) = x @ sep @ join sep (y # ys)"

definition brackets :: "nat \<Rightarrow> nat \<Rightarrow> pystr list \<Rightarrow> pystr" where
  "brackets l r parts = [l] @ join (py_str '', '') parts @ [r]"

text \<open>
  Lists and tuples are arrays, dicts are objects. An object the encoder does not know
  raises \<^verbatim>\<open>TypeError\<close>; a container met again inside itself raises
  \<^verbatim>\<open>ValueError\<close> (circular reference detected).
\<close>

fun json_dumps :: "pyval \<Rightarrow> exn + pystr" where
  "json_dumps PNone = Inr (py_str ''null'')"
| "json_dumps (PBool b) = Inr (py_str (if b then ''true'' else ''false''))"
| "json_dumps (PInt i) = Inr (intstr i)"
| "json_dumps (PFloat f) = Inr (floatstr f)"
| "json_dumps (PStr s) = Inr (encode_basestring_ascii s)"
| "json_dumps (PList xs) = on_value (brackets 91 93) (collect (map json_dumps xs))"
| "json_dumps (PTuple xs) = on_value (brackets 91 93) (collect (map json_dumps xs))"
| "json_dumps (PDict kvs) =
     on_value (brackets 123 125)
       (collect (map (\<lambda>(k, v).
          (case key_str k of
             Inl e \<Rightarrow> Inl e
           | Inr ks \<Rightarrow>
               on_value (\<lambda>vs. encode_basestring_ascii ks @ py_str '': '' @ vs) (json_dumps v)))
          kvs))"
| "json_dumps (PArray t) = Inl TypeError"
| "json_dumps (PObj n) = Inl TypeError"
| "json_dumps (PBack n) = Inl ValueError"

text \<open>\<^verbatim>\<open>str.encode('utf-8')\<close>: one to four bytes a code point; a lone surrogate raises.\<close>

definition utf8_char :: "nat \<Rightarrow> exn + bytes" where
  "utf8_char c =
     (if c < 128 then Inr [char_of c]
      else if c < 2048 then Inr [char_of (192 + c div 64), char_of (128 + c mod 64)]
      else if 55296 \<le> c \<and> c < 57344 then Inl UnicodeEncodeError
      else if c < 65536 then
        Inr [char_of (224 + c div 4096), char_of (128 + c div 64 mod 64), char_of (128 + c mod 64)]
      else
        Inr [char_of (240 + c div 262144), char_of (128 + c div 4096 mod 64),
             char_of (128 + c div 64 mod 64), char_of (128 + c mod 64)])"

definition encode_utf8 :: "pystr \<Rightarrow> exn + bytes" where
  "encode_utf8 s = on_value concat (collect (map utf8_char s))"

text \<open>
  The body of the \<^verbatim>\<open>try\<close> in \<^verbatim>\<open>send_data\<close>:
  \<^verbatim>\<open>
  json_payload = json.dumps(data_to_send) + '\n'
  encoded_payload = json_payload.encode('utf-8')
  \<close>
\<close>

definition encode_payload :: "pyval \<Rightarrow> exn + bytes" where
  "encode_payload data_to_send =
     (case json_dumps data_to_send of
        Inl e \<Rightarrow> Inl e
      | Inr json_payload \<Rightarrow> encode_utf8 (json_payload @ [10]))"


section \<open>The bridge\<close>

text \<open>
  A consumer's socket is a handle. The bridge object holds the listening socket and the
  list of consumers; the lock is seen through the events below.
  \<^verbatim>\<open>
  def __init__(self, host='localhost', port=12345):
      self.host = host
      self.port = port
      self.server_socket = socket.socket(socket.AF_INET, socket.SOCK_STREAM)
      self.server_socket.setsockopt(socket.SOL_SOCKET, socket.SO_REUSEADDR, 1)
      self.clients = []
      self.lock = threading.Lock()
  \<close>
\<close>

type_synonym handle = nat

datatype sock_state = Fresh | Bound | Listening | SockClosed

record bridge =
  host :: string
  port :: nat
  server_socket :: sock_state
  clients :: "handle list"

definition init :: "string \<Rightarrow> nat \<Rightarrow> bridge" where
  "init h p = \<lparr>host = h, port = p, server_socket = Fresh, clients = []\<rparr>"

text \<open>
  What a call on a socket does: it returns, it raises \<^verbatim>\<open>socket.error\<close>, or it raises some
  other \<^verbatim>\<open>Exception\<close>. The network decides, so the outcomes are parameters of the model.
\<close>

datatype outcome = Done | SockErr | OtherErr

datatype accepted = Connected handle | AcceptSockErr | AcceptOtherErr

record sockenv =
  sendall :: "handle \<Rightarrow> bytes \<Rightarrow> outcome"
  getpeername :: "handle \<Rightarrow> outcome"
  shutdown :: "handle \<Rightarrow> outcome"
  close_client :: "handle \<Rightarrow> outcome"
  close_server :: outcome

text \<open>
  Everything the program does to the outside, in the order it does it: log lines (level
  and fixed text), the lock, the encoder's two steps, and the socket calls with their
  outcomes.
\<close>

datatype level = INFO | WARNING | ERROR

datatype event =
    Log level string
  | Acquire
  | Release
  | Convert pyval
  | Dumps pyval
  | Sendall handle bytes outcome
  | Getpeername handle outcome
  | Remove handle
  | CloseClient handle outcome
  | Shutdown handle outcome
  | CloseServer outcome
  | BindSocket outcome
  | ListenSocket outcome
  | Accept accepted
  | Append handle
  | CreateBridge
  | StartAcceptThread
  | StartThread pyval
  | Join nat
  | Traceback
  | CallClose

subsection \<open>send\_data\<close>

text \<open>
  The loop of \<^verbatim>\<open>send_data\<close> over \<^verbatim>\<open>list(self.clients)\<close>, the copy taken when the loop
  starts; \<open>cl\<close> is \<^verbatim>\<open>self.clients\<close> as the loop changes it.
  \<^verbatim>\<open>
  for client in list(self.clients):
      try:
          client.sendall(encoded_payload)
      except socket.error as e:
          logging.warning(f"Socket error sending data: {e}. Removing client {client.getpeername()}.")
          self.clients.remove(client)
          try:
              client.close()
          except:
              pass
      except Exception as e:
          logging.error(f"Unexpected error sending data: {e}")
  \<close>
  The warning's text calls \<^verbatim>\<open>client.getpeername()\<close> inside the handler: when that call
  raises, the exception leaves the handler and the loop, before the removal.
  \<^verbatim>\<open>list.remove\<close> raises \<^verbatim>\<open>ValueError\<close> when the element is absent.
\<close>

fun send_loop :: "sockenv \<Rightarrow> bytes \<Rightarrow> handle list \<Rightarrow> handle list
    \<Rightarrow> exn option \<times> handle list \<times> event list" where
  "send_loop env payload [] cl = (None, cl, [])"
| "send_loop env payload (client # rest) cl =
     (case sendall env client payload of
        Done \<Rightarrow>
          (case send_loop env payload rest cl of
             (ex, cl', evs) \<Rightarrow> (ex, cl', Sendall client payload Done # evs))
      | SockErr \<Rightarrow>
          (case getpeername env client of
             Done \<Rightarrow>
               (if client \<in> set cl then
                  (case send_loop env payload rest (remove1 client cl) of
                     (ex, cl', evs) \<Rightarrow>
                       (ex, cl',
                        [Sendall client payload SockErr, Getpeername client Done,
                         Log WARNING ''Socket error sending data'', Remove client,
                         CloseClient client (close_client env client)] @ evs))
                else
                  (Some ValueError, cl,
                   [Sendall client payload SockErr, Getpeername client Done,
                    Log WARNING ''Socket error sending data'']))
           | SockErr \<Rightarrow>
               (Some SocketError, cl,
                [Sendall client payload SockErr, Getpeername client SockErr])
           | OtherErr \<Rightarrow>
               (Some OtherException, cl,
                [Sendall client payload SockErr, Getpeername client OtherErr]))
      | OtherErr \<Rightarrow>
          (case send_loop env payload rest cl of
             (ex, cl', evs) \<Rightarrow>
               (ex, cl',
                [Sendall client payload OtherErr, Log ERROR ''Unexpected error sending data'']
                @ evs)))"

text \<open>
  \<^verbatim>\<open>
  def send_data(self, data):
      if not self.clients:
          return
      data_to_send = self._convert_numpy_to_list(data)
      json_payload = ""
      try:
          json_payload = json.dumps(data_to_send) + '\n'
          encoded_payload = json_payload.encode('utf-8')
      except TypeError as e:
          logging.error(f"JSON serialization error: {e}. Data: {data}")
          return
      with self.lock:
          for client in list(self.clients): ...
  \<close>
  The result is the exception that leaves the call (if any), the bridge afterwards and
  the events. The normalization stands outside the \<^verbatim>\<open>try\<close>, and the \<^verbatim>\<open>try\<close> catches
  \<^verbatim>\<open>TypeError\<close> only. \<^verbatim>\<open>with self.lock\<close> releases the lock on every way out.
\<close>

definition send_data :: "sockenv \<Rightarrow> bridge \<Rightarrow> pyval \<Rightarrow> exn option \<times> bridge \<times> event list" where
  "send_data env b data =
     (if clients b = [] then (None, b, [])
      else
        (case convert_numpy_to_list data of
           Inl e \<Rightarrow> (Some e, b, [Convert data])
         | Inr data_to_send \<Rightarrow>
             (case encode_payload data_to_send of
                Inl e \<Rightarrow>
                  (if e = TypeError then
                     (None, b,
                      [Convert data, Dumps data_to_send, Log ERROR ''JSON serialization error''])
                   else (Some e, b, [Convert data, Dumps data_to_send]))
              | Inr encoded_payload \<Rightarrow>
                  (case send_loop env encoded_payload (clients b) (clients b) of
                     (ex, cl, evs) \<Rightarrow>
                       (ex, b\<lparr>clients := cl\<rparr>,
                        [Convert data, Dumps data_to_send, Acquire] @ evs @ [Release])))))"

subsection \<open>close\<close>

text \<open>
  \<^verbatim>\<open>
  def close(self):
      logging.info("Closing server socket and all client connections.")
      with self.lock:
          for client in self.clients:
              try:
                  client.shutdown(socket.SHUT_RDWR)
                  client.close()
              except socket.error:
                  pass
              except Exception as e:
                  logging.error(f"Error closing client socket: {e}")
          self.clients.clear()
      try:
          self.server_socket.close()
      except socket.error as e:
          logging.error(f"Error closing server socket: {e}")
      except Exception as e:
          logging.error(f"Unexpected error closing server socket: {e}")
  \<close>
  Every exception of a socket call is caught, so the call always returns. The listening
  socket is released whether or not its \<^verbatim>\<open>close()\<close> reports an error.
\<close>

definition close_one :: "sockenv \<Rightarrow> handle \<Rightarrow> event list" where
  "close_one env client =
     (case shutdown env client of
        Done \<Rightarrow>
          (case close_client env client of
             Done \<Rightarrow> [Shutdown client Done, CloseClient client Done]
           | SockErr \<Rightarrow> [Shutdown client Done, CloseClient client SockErr]
           | OtherErr \<Rightarrow>
               [Shutdown client Done, CloseClient client OtherErr,
                Log ERROR ''Error closing client socket''])
      | SockErr \<Rightarrow> [Shutdown client SockErr]
      | OtherErr \<Rightarrow> [Shutdown client OtherErr, Log ERROR ''Error closing client socket''])"

definition close :: "sockenv \<Rightarrow> bridge \<Rightarrow> bridge \<times> event list" where
  "close env b =
     (b\<lparr>clients := [], server_socket := SockClosed\<rparr>,
      [Log INFO ''Closing server socket and all client connections.'', Acquire]
      @ concat (map (close_one env) (clients b))
      @ [Release]
      @ (case close_server env of
           Done \<Rightarrow> [CloseServer Done]
         | SockErr \<Rightarrow> [CloseServer SockErr, Log ERROR ''Error closing server socket'']
         | OtherErr \<Rightarrow>
             [CloseServer OtherErr, Log ERROR ''Unexpected error closing server socket'']))"


subsection \<open>start\<close>

text \<open>
  \<^verbatim>\<open>
  def start(self):
      try:
          self.server_socket.bind((self.host, self.port))
          self.server_socket.listen(1)
          logging.info(f"Waiting for Unity client on {self.host}:{self.port}")
      except socket.error as e:
          logging.error(f"Failed to bind or listen on socket: {e}")
          return
      while True:
          try:
              client_socket, addr = self.server_socket.accept()
              logging.info(f"Unity client connected from {addr}")
              with self.lock:
                  self.clients.append(client_socket)
          except socket.error as e:
              logging.error(f"Socket error in accept (server socket likely closed): {e}")
              break
          except Exception as e:
              logging.error(f"Unexpected error in accept loop: {e}")
              break
  \<close>
  \<^verbatim>\<open>bind\<close> refuses a port above 65535 with \<^verbatim>\<open>OverflowError\<close>, which is no
  \<^verbatim>\<open>socket.error\<close>, before it asks the system. Otherwise the network gives the outcome
  of \<^verbatim>\<open>bind\<close>, of \<^verbatim>\<open>listen\<close> and of each \<^verbatim>\<open>accept\<close> in turn. The first \<^verbatim>\<open>try\<close> catches
  \<^verbatim>\<open>socket.error\<close> only. When no further \<^verbatim>\<open>accept\<close> ever returns, the loop stays
  blocked: the call does not return (\<open>Blocked\<close>).
\<close>

record listenenv =
  bind_result :: outcome
  listen_result :: outcome
  accepts :: "accepted list"

datatype status = Returned | Raised exn | Blocked

fun accept_loop :: "accepted list \<Rightarrow> bridge \<Rightarrow> status \<times> bridge \<times> event list" where
  "accept_loop [] b = (Blocked, b, [])"
| "accept_loop (Connected client_socket # later) b =
     (case accept_loop later (b\<lparr>clients := clients b @ [client_socket]\<rparr>) of
        (st, b', evs) \<Rightarrow>
          (st, b',
           [Accept (Connected client_socket), Log INFO ''Unity client connected'',
            Acquire, Append client_socket, Release] @ evs))"
| "accept_loop (AcceptSockErr # later) b =
     (Returned, b,
      [Accept AcceptSockErr, Log ERROR ''Socket error in accept (server socket likely closed)''])"
| "accept_loop (AcceptOtherErr # later) b =
     (Returned, b, [Accept AcceptOtherErr, Log ERROR ''Unexpected error in accept loop''])"

definition start :: "listenenv \<Rightarrow> bridge \<Rightarrow> status \<times> bridge \<times> event list" where
  "start env b =
     (if 65535 < port b then (Raised OverflowError, b, [BindSocket OtherErr])
      else
        (case bind_result env of
           SockErr \<Rightarrow>
             (Returned, b, [BindSocket SockErr, Log ERROR ''Failed to bind or listen on socket''])
         | OtherErr \<Rightarrow> (Raised OtherException, b, [BindSocket OtherErr])
         | Done \<Rightarrow>
             (case listen_result env of
                SockErr \<Rightarrow>
                  (Returned, b\<lparr>server_socket := Bound\<rparr>,
                   [BindSocket Done, ListenSocket SockErr,
                    Log ERROR ''Failed to bind or listen on socket''])
              | OtherErr \<Rightarrow>
                  (Raised OtherException, b\<lparr>server_socket := Bound\<rparr>,
                   [BindSocket Done, ListenSocket OtherErr])
              | Done \<Rightarrow>
                  (case accept_loop (accepts env) (b\<lparr>server_socket := Listening\<rparr>) of
                     (st, b', evs) \<Rightarrow>
                       (st, b',
                        [BindSocket Done, ListenSocket Done,
                         Log INFO ''Waiting for Unity client'']
                        @ evs)))))"

subsection \<open>The lifecycle coordinator\<close>

text \<open>
  A configuration is a dict of sections, each a dict of options. \<^verbatim>\<open>DEFAULT_CONFIG\<close> comes
  from the \<^verbatim>\<open>Sports2D\<close> package, which is not part of this source: it is a parameter.
  \<open>setitem\<close> is \<^verbatim>\<open>d[k] = v\<close> on a dict: the value of an existing key is replaced where
  it stands, a new key goes to the end.
\<close>

type_synonym options = "(pykey \<times> pyval) list"
type_synonym config = "(pykey \<times> options) list"

fun setitem :: "('k \<times> 'v) list \<Rightarrow> 'k \<Rightarrow> 'v \<Rightarrow> ('k \<times> 'v) list" where
  "setitem [] k v = [(k, v)]"
| "setitem ((k', v') # d) k v = (if k' = k then (k, v) # d else (k', v') # setitem d k v)"

text \<open>
  \<^verbatim>\<open>
  base_overrides = initial_config_overrides.get('base', {})
  for key, value in base_overrides.items(): ...
  \<close>
  \<open>overrides_items\<close> is \<^verbatim>\<open>initial_config_overrides.get(section, {}).items()\<close>: only a dict
  has \<^verbatim>\<open>get\<close>, and only a dict has \<^verbatim>\<open>items\<close>; on anything else the attribute lookup
  raises \<^verbatim>\<open>AttributeError\<close>.
\<close>

fun overrides_items :: "pyval \<Rightarrow> pystr \<Rightarrow> exn + options" where
  "overrides_items (PDict kvs) sect =
     (case map_of kvs (KStr sect) of
        None \<Rightarrow> Inr []
      | Some (PDict items) \<Rightarrow> Inr items
      | Some other \<Rightarrow> Inl AttributeError)"
| "overrides_items other sect = Inl AttributeError"

text \<open>
  \<^verbatim>\<open>
  if 'base' not in config_dict: config_dict['base'] = {}
  base_overrides = initial_config_overrides.get('base', {})
  for key, value in base_overrides.items():
      config_dict['base'][key] = value
  \<close>
  and the same for \<^verbatim>\<open>'pose'\<close>.
\<close>

definition ensure_section :: "config \<Rightarrow> pystr \<Rightarrow> config" where
  "ensure_section config_dict sect =
     (if KStr sect \<in> fst ` set config_dict then config_dict
      else setitem config_dict (KStr sect) [])"

definition section_of :: "config \<Rightarrow> pystr \<Rightarrow> options" where
  "section_of config_dict sect =
     (case map_of config_dict (KStr sect) of None \<Rightarrow> [] | Some opts \<Rightarrow> opts)"

definition apply_overrides :: "config \<Rightarrow> pystr \<Rightarrow> pyval \<Rightarrow> exn + config" where
  "apply_overrides config_dict sect initial_config_overrides =
     (case overrides_items initial_config_overrides sect of
        Inl e \<Rightarrow> Inl e
      | Inr items \<Rightarrow>
          Inr (setitem (ensure_section config_dict sect) (KStr sect)
                 (foldl (\<lambda>opts (key, value). setitem opts key value)
                    (section_of (ensure_section config_dict sect) sect) items)))"

text \<open>
  The lines of \<^verbatim>\<open>process_with_unity\<close> before its \<^verbatim>\<open>try\<close>:
  \<^verbatim>\<open>
  bridge = Sports2DUnityBridge()
  server_thread = threading.Thread(target=bridge.start)
  server_thread.daemon = True
  server_thread.start()
  config_dict = copy.deepcopy(DEFAULT_CONFIG)
  ... the overrides of 'base' and 'pose' ...
  if 'logging' not in config_dict: config_dict['logging'] = {}
  config_dict['logging']['use_custom_logging'] = False
  config_dict['process_callback_for_unity'] = process_callback_for_unity
  \<close>
  None of them stands inside the \<^verbatim>\<open>try\<close>: an exception raised here leaves
  \<^verbatim>\<open>process_with_unity\<close> at once. The constructor raises when the socket cannot be
  created, \<^verbatim>\<open>Thread.start\<close> when no thread can be started, the overrides when they are
  not dicts, and an interrupt can arrive at any line (\<open>early_interrupt\<close>). The callback is
  a function object, written \<open>PObj 0\<close>. The result is the exception or the configuration
  handed to the producer.
\<close>

record setupenv =
  create_socket :: outcome
  accept_thread_starts :: bool
  early_interrupt :: bool

definition final_config :: "config \<Rightarrow> pyval" where
  "final_config config_dict =
     PDict (map (\<lambda>(k, opts). (k, PDict opts)) config_dict
            @ [(KStr (py_str ''process_callback_for_unity''), PObj 0)])"

definition prelude :: "setupenv \<Rightarrow> config \<Rightarrow> pyval \<Rightarrow> (exn + pyval) \<times> event list" where
  "prelude env default_config initial_config_overrides =
     (if create_socket env \<noteq> Done then (Inl SocketError, [])
      else if \<not> accept_thread_starts env then (Inl OtherException, [CreateBridge])
      else if early_interrupt env then (Inl KeyboardInterrupt, [CreateBridge, StartAcceptThread])
      else
        (case apply_overrides default_config (py_str ''base'') initial_config_overrides of
           Inl e \<Rightarrow> (Inl e, [CreateBridge, StartAcceptThread])
         | Inr with_base \<Rightarrow>
             (case apply_overrides with_base (py_str ''pose'') initial_config_overrides of
                Inl e \<Rightarrow> (Inl e, [CreateBridge, StartAcceptThread])
              | Inr with_pose \<Rightarrow>
                  (Inr (final_config
                          (setitem (ensure_section with_pose (py_str ''logging''))
                             (KStr (py_str ''logging''))
                             (setitem
                                (section_of (ensure_section with_pose (py_str ''logging''))
                                   (py_str ''logging''))
                                (KStr (py_str ''use_custom_logging'')) (PBool False)))),
                   [CreateBridge, StartAcceptThread]))))"

text \<open>
  \<^verbatim>\<open>
  main_process_thread = None
  try:
      logging.info("Starting Sports2D.process in a new thread...")
      main_process_thread = threading.Thread(target=Sports2D.process, args=(config_dict,))
      main_process_thread.daemon = True
      main_process_thread.start()
      while main_process_thread.is_alive():
          main_process_thread.join(timeout=0.5)
  except KeyboardInterrupt:
      logging.info("KeyboardInterrupt received. Shutting down bridge and Sports2D process.")
  except Exception as e:
      logging.error(f"Error during Sports2D.process execution: {e}")
      import traceback
      traceback.print_exc()
  finally:
      logging.info("Initiating shutdown of the bridge...")
      bridge.close()
      if main_process_thread and main_process_thread.is_alive():
          logging.info("Sports2D process thread is still alive, waiting for it to join (max 5s)...")
          main_process_thread.join(timeout=5)
          if main_process_thread.is_alive():
               logging.warning("Sports2D process thread did not terminate gracefully.")
      logging.info("Sports2D Unity Bridge finished.")
  \<close>
  A round of the polling loop sees the producer thread dead (\<open>Dead\<close>: it completed, or
  it failed and died), waits half a second (\<open>Waited\<close>), or is cut by an exception raised
  in the coordinator's thread: \<^verbatim>\<open>KeyboardInterrupt\<close> at the loop's test (\<open>Interrupted\<close>) or
  inside the wait (\<open>InterruptedInJoin\<close>), an \<^verbatim>\<open>Exception\<close> (\<open>Failed\<close>), or another
  \<^verbatim>\<open>BaseException\<close> such as \<^verbatim>\<open>SystemExit\<close> (\<open>Aborted\<close>). A list of rounds that ends
  with the thread alive is a run that never leaves the loop: \<open>None\<close>. Timeouts are in
  milliseconds.

  \<open>alive_after_close\<close> and \<open>alive_after_join\<close> are what \<^verbatim>\<open>is_alive()\<close> answers in the
  \<^verbatim>\<open>finally\<close> block. (Some CPython versions, 3.11 among them, mark a thread stopped when
  an exception cuts a \<^verbatim>\<open>join\<close> on it: there the answer is \<open>False\<close> after the rounds that
  are cut inside the wait, whatever the thread does.)
\<close>

datatype round = Waited | Dead | Interrupted | InterruptedInJoin | Failed | Aborted

datatype launched = Launched | CreateFailed | StartFailed

datatype try_end = Completed | Caught exn | Uncaught exn

fun poll :: "round list \<Rightarrow> (try_end \<times> event list) option" where
  "poll [] = None"
| "poll (Dead # later) = Some (Completed, [])"
| "poll (Waited # later) =
     (case poll later of None \<Rightarrow> None | Some (e, evs) \<Rightarrow> Some (e, Join 500 # evs))"
| "poll (Interrupted # later) = Some (Caught KeyboardInterrupt, [])"
| "poll (InterruptedInJoin # later) = Some (Caught KeyboardInterrupt, [Join 500])"
| "poll (Failed # later) = Some (Caught OtherException, [Join 500])"
| "poll (Aborted # later) = Some (Uncaught OtherException, [Join 500])"

record coordenv =
  before_try :: setupenv
  launch :: launched
  rounds :: "round list"
  alive_after_close :: bool
  alive_after_join :: bool
  sockets :: sockenv

text \<open>The \<^verbatim>\<open>try\<close> block: how it ends, and whether a thread object exists afterwards.\<close>

definition try_block :: "coordenv \<Rightarrow> pyval \<Rightarrow> (try_end \<times> bool \<times> event list) option" where
  "try_block env config_dict =
     (case launch env of
        CreateFailed \<Rightarrow>
          Some (Caught OtherException, False,
                [Log INFO ''Starting Sports2D.process in a new thread...''])
      | StartFailed \<Rightarrow>
          Some (Caught OtherException, True,
                [Log INFO ''Starting Sports2D.process in a new thread...'',
                 StartThread config_dict])
      | Launched \<Rightarrow>
          (case poll (rounds env) of
             None \<Rightarrow> None
           | Some (e, evs) \<Rightarrow>
               Some (e, True,
                     [Log INFO ''Starting Sports2D.process in a new thread...'',
                      StartThread config_dict]
                     @ evs)))"

definition handlers :: "try_end \<Rightarrow> event list" where
  "handlers e =
     (case e of
        Completed \<Rightarrow> []
      | Caught x \<Rightarrow>
          (if x = KeyboardInterrupt then
             [Log INFO ''KeyboardInterrupt received. Shutting down bridge and Sports2D process.'']
           else [Log ERROR ''Error during Sports2D.process execution'', Traceback])
      | Uncaught x \<Rightarrow> [])"

text \<open>
  The \<^verbatim>\<open>finally\<close> block. The thread can be alive there only if it was started and the
  loop did not see it dead.
\<close>

definition finally_block :: "coordenv \<Rightarrow> bridge \<Rightarrow> bool \<Rightarrow> bridge \<times> event list" where
  "finally_block env b alive =
     (case close (sockets env) b of
        (b', evs) \<Rightarrow>
          (b',
           [Log INFO ''Initiating shutdown of the bridge...'', CallClose] @ evs
           @ (if alive \<and> alive_after_close env then
                [Log INFO ''Sports2D process thread is still alive, waiting for it to join (max 5s)...'',
                 Join 5000]
                @ (if alive_after_join env then
                     [Log WARNING ''Sports2D process thread did not terminate gracefully.'']
                   else [])
              else [])
           @ [Log INFO ''Sports2D Unity Bridge finished.'']))"

text \<open>
  The whole of \<^verbatim>\<open>process_with_unity(initial_config_overrides)\<close>. \<open>b\<close> is the bridge
  object of the first line as the accept thread has left it when the coordinator gets
  to \<^verbatim>\<open>bridge.close()\<close>. The result is the exception that leaves the call (if any), the
  bridge afterwards and the events of the coordinator's thread. When a line before the
  \<^verbatim>\<open>try\<close> raises, the bridge is left as it is (when the constructor itself raises, no
  bridge exists yet).
\<close>

definition process_with_unity ::
  "coordenv \<Rightarrow> config \<Rightarrow> pyval \<Rightarrow> bridge \<Rightarrow> (exn option \<times> bridge \<times> event list) option" where
  "process_with_unity env default_config initial_config_overrides b =
     (case prelude (before_try env) default_config initial_config_overrides of
        (Inl e, evs0) \<Rightarrow> Some (Some e, b, evs0)
      | (Inr config_dict, evs0) \<Rightarrow>
          (case try_block env config_dict of
             None \<Rightarrow> None
           | Some (e, thread, evs) \<Rightarrow>
               (case finally_block env b
                       (thread \<and> launch env = Launched \<and> e \<noteq> Completed) of
                  (b', fin) \<Rightarrow>
                    Some ((case e of Uncaught x \<Rightarrow> Some x | _ \<Rightarrow> None), b',
                          evs0 @ evs @ handlers e @ fin))))"

section \<open>Notions used in the properties\<close>

subsection \<open>Plain values\<close>

text \<open>
  A plain value is \<^verbatim>\<open>None\<close>, a boolean, a number, a string, or a list or dict of plain
  values. \<open>walk_clean\<close> is weaker: the walk of \<^verbatim>\<open>_convert_numpy_to_list\<close> (through lists
  and the values of dicts) meets no array-like object and no back reference; what lies
  inside tuples and other objects is not walked. \<open>tolist_clean\<close> says that every
  array-like object the walk meets has a \<^verbatim>\<open>tolist()\<close> result that is \<open>walk_clean\<close>.
  \<open>twice\<close> applies the normalization to its own output.
\<close>

fun plain :: "pyval \<Rightarrow> bool" where
  "plain PNone = True"
| "plain (PBool b) = True"
| "plain (PInt i) = True"
| "plain (PFloat f) = True"
| "plain (PStr s) = True"
| "plain (PList xs) = (\<forall>x \<in> set xs. plain x)"
| "plain (PDict kvs) = (\<forall>(k, v) \<in> set kvs. plain v)"
| "plain v = False"

fun walk_clean :: "pyval \<Rightarrow> bool" where
  "walk_clean (PList xs) = (\<forall>x \<in> set xs. walk_clean x)"
| "walk_clean (PDict kvs) = (\<forall>(k, v) \<in> set kvs. walk_clean v)"
| "walk_clean (PArray t) = False"
| "walk_clean (PBack n) = False"
| "walk_clean v = True"

fun tolist_clean :: "pyval \<Rightarrow> bool" where
  "tolist_clean (PList xs) = (\<forall>x \<in> set xs. tolist_clean x)"
| "tolist_clean (PDict kvs) = (\<forall>(k, v) \<in> set kvs. tolist_clean v)"
| "tolist_clean (PArray t) = walk_clean t"
| "tolist_clean v = True"

definition twice :: "pyval \<Rightarrow> exn + pyval" where
  "twice item = (case convert_numpy_to_list item of Inl e \<Rightarrow> Inl e | Inr out \<Rightarrow> convert_numpy_to_list out)"


subsection \<open>Positions in a record\<close>

text \<open>
  A position is a path of list indices and dict keys; \<open>at item p\<close> is the value of
  \<open>item\<close> at \<open>p\<close>. \<open>converted_node x y\<close> says what the normalization leaves where \<open>x\<close>
  stood, looking at that node alone: in place of an array-like object the result of its
  \<^verbatim>\<open>tolist()\<close>, in place of a list a list of the same length, in place of a dict a dict
  with the same keys in the same order, and any other value itself.
  \<open>walk_acyclic\<close>: the walk meets no back reference. \<open>walk_plain\<close>: the walk meets only
  scalars and array-like objects whose \<^verbatim>\<open>tolist()\<close> is plain (no tuple and no other
  object). A numeric sequence is a number or a list of numeric sequences.
\<close>

datatype step = Idx nat | Key pykey

fun at :: "pyval \<Rightarrow> step list \<Rightarrow> pyval option" where
  "at v [] = Some v"
| "at (PList xs) (Idx i # p) = (if i < length xs then at (xs ! i) p else None)"
| "at (PDict kvs) (Key k # p) = (case map_of kvs k of None \<Rightarrow> None | Some v \<Rightarrow> at v p)"
| "at v (s # p) = None"

fun converted_node :: "pyval \<Rightarrow> pyval \<Rightarrow> bool" where
  "converted_node (PArray buf) y = (y = buf)"
| "converted_node (PList xs) y = (case y of PList ys \<Rightarrow> length ys = length xs | _ \<Rightarrow> False)"
| "converted_node (PDict kvs) y =
     (case y of PDict kvs' \<Rightarrow> map fst kvs' = map fst kvs | _ \<Rightarrow> False)"
| "converted_node x y = (y = x)"

fun walk_acyclic :: "pyval \<Rightarrow> bool" where
  "walk_acyclic (PList xs) = (\<forall>x \<in> set xs. walk_acyclic x)"
| "walk_acyclic (PDict kvs) = (\<forall>(k, v) \<in> set kvs. walk_acyclic v)"
| "walk_acyclic (PBack n) = False"
| "walk_acyclic v = True"

fun walk_plain :: "pyval \<Rightarrow> bool" where
  "walk_plain PNone = True"
| "walk_plain (PBool b) = True"
| "walk_plain (PInt i) = True"
| "walk_plain (PFloat f) = True"
| "walk_plain (PStr s) = True"
| "walk_plain (PList xs) = (\<forall>x \<in> set xs. walk_plain x)"
| "walk_plain (PDict kvs) = (\<forall>(k, v) \<in> set kvs. walk_plain v)"
| "walk_plain (PArray t) = plain t"
| "walk_plain v = False"

fun numeric_seq :: "pyval \<Rightarrow> bool" where
  "numeric_seq (PInt i) = True"
| "numeric_seq (PFloat f) = True"
| "numeric_seq (PList xs) = (\<forall>x \<in> set xs. numeric_seq x)"
| "numeric_seq v = False"

subsection \<open>A network where every call succeeds\<close>

definition quiet :: sockenv where
  "quiet = \<lparr>sendall = (\<lambda>c p. Done), getpeername = (\<lambda>c. Done), shutdown = (\<lambda>c. Done),
            close_client = (\<lambda>c. Done), close_server = Done\<rparr>"

subsection \<open>What a consumer receives\<close>

text \<open>
  \<open>printable\<close>: a text of printable ASCII only. \<open>delivered c evs\<close> is the byte stream
  consumer \<open>c\<close> was sent in the events \<open>evs\<close>: the payloads of its \<^verbatim>\<open>sendall\<close> calls that
  returned, in order. \<open>split_records\<close> is the consumer's side of the wire protocol: it
  cuts a stream at each newline. \<open>encode\<close> is the whole encoder (normalization, then
  serialization and framing); \<open>payloads\<close> keeps the records that encode, in order.
  \<open>send_all\<close> makes one \<^verbatim>\<open>send_data\<close> call after the other, each with the network as it
  is at that moment, and stops at the first call an exception leaves.
\<close>

definition printable :: "pystr \<Rightarrow> bool" where
  "printable s = (\<forall>c \<in> set s. 32 \<le> c \<and> c \<le> 126)"

fun written :: "handle \<Rightarrow> event \<Rightarrow> bytes" where
  "written c (Sendall h p Done) = (if h = c then p else [])"
| "written c e = []"

definition delivered :: "handle \<Rightarrow> event list \<Rightarrow> bytes" where
  "delivered c evs = concat (map (written c) evs)"

definition encode :: "pyval \<Rightarrow> exn + bytes" where
  "encode data =
     (case convert_numpy_to_list data of Inl e \<Rightarrow> Inl e | Inr d \<Rightarrow> encode_payload d)"

fun payloads :: "pyval list \<Rightarrow> bytes list" where
  "payloads [] = []"
| "payloads (d # ds) = (case encode d of Inl e \<Rightarrow> payloads ds | Inr p \<Rightarrow> p # payloads ds)"

fun send_all :: "bridge \<Rightarrow> (sockenv \<times> pyval) list \<Rightarrow> exn option \<times> bridge \<times> event list" where
  "send_all b [] = (None, b, [])"
| "send_all b ((env, data) # calls) =
     (case send_data env b data of
        (Some e, b', evs) \<Rightarrow> (Some e, b', evs)
      | (None, b', evs) \<Rightarrow>
          (case send_all b' calls of (ex, b'', evs') \<Rightarrow> (ex, b'', evs @ evs')))"

fun split_records :: "bytes \<Rightarrow> bytes \<Rightarrow> bytes list" where
  "split_records acc [] = []"
| "split_records acc (x # xs) =
     (if x = CHR 0x0A then rev acc # split_records [] xs else split_records (x # acc) xs)"


subsection \<open>Example networks and records\<close>

text \<open>
  \<open>failing k g\<close>: every call succeeds, except that \<^verbatim>\<open>sendall\<close> on consumer \<open>k\<close> raises
  \<^verbatim>\<open>socket.error\<close> (the peer is gone) and \<^verbatim>\<open>getpeername\<close> on it has outcome \<open>g\<close>.
\<close>

definition failing :: "handle \<Rightarrow> outcome \<Rightarrow> sockenv" where
  "failing k g = quiet\<lparr>sendall := (\<lambda>c p. if c = k then SockErr else Done),
                       getpeername := (\<lambda>c. if c = k then g else Done)\<rparr>"

definition two_consumers :: bridge where
  "two_consumers = \<lparr>host = ''localhost'', port = 12345, server_socket = Listening, clients = [1, 2]\<rparr>"

definition frame :: "int \<Rightarrow> pyval" where
  "frame n = PDict [(KStr (py_str ''frame''), PInt n)]"


definition session :: "(sockenv \<times> pyval) list" where
  "session = [(quiet, frame 1), (quiet, PObj 7), (failing 2 Done, frame 2)]"

subsection \<open>The lock\<close>

text \<open>
  Two disciplines on a trace, read from left to right with the lock free or held.
  \<open>io_outside_lock\<close>: no \<^verbatim>\<open>sendall\<close> happens while the lock is held. \<open>under_lock\<close>:
  the lock is taken only when free and released only when held, every socket call on a
  consumer and every removal happens while it is held, and it is free at the end.
  \<open>acquisitions\<close> counts how often the lock is taken.
\<close>

fun io_outside_lock :: "bool \<Rightarrow> event list \<Rightarrow> bool" where
  "io_outside_lock held [] = True"
| "io_outside_lock held (Acquire # evs) = io_outside_lock True evs"
| "io_outside_lock held (Release # evs) = io_outside_lock False evs"
| "io_outside_lock held (Sendall c p r # evs) = (\<not> held \<and> io_outside_lock held evs)"
| "io_outside_lock held (e # evs) = io_outside_lock held evs"

fun under_lock :: "bool \<Rightarrow> event list \<Rightarrow> bool" where
  "under_lock held [] = (\<not> held)"
| "under_lock held (Acquire # evs) = (\<not> held \<and> under_lock True evs)"
| "under_lock held (Release # evs) = (held \<and> under_lock False evs)"
| "under_lock held (Sendall c p r # evs) = (held \<and> under_lock held evs)"
| "under_lock held (Getpeername c r # evs) = (held \<and> under_lock held evs)"
| "under_lock held (Remove c # evs) = (held \<and> under_lock held evs)"
| "under_lock held (CloseClient c r # evs) = (held \<and> under_lock held evs)"
| "under_lock held (e # evs) = under_lock held evs"

definition acquisitions :: "event list \<Rightarrow> nat" where
  "acquisitions evs = length (filter (\<lambda>e. e = Acquire) evs)"

subsection \<open>The coordinator's trace\<close>

text \<open>
  \<open>closes\<close> counts the calls of \<^verbatim>\<open>bridge.close()\<close>; \<open>after_close\<close> is what follows the
  first of them; \<open>waits\<close> lists the timeouts of the \<^verbatim>\<open>join\<close> calls. A quiet event is
  none of these and no warning. \<open>coordination rs a j\<close> is a run in which the producer
  thread starts, the polling rounds are \<open>rs\<close>, and the thread is alive after the close
  (\<open>a\<close>) and after the grace period (\<open>j\<close>) if asked; \<open>ready\<close> is a start in which
  nothing fails before the \<^verbatim>\<open>try\<close>.
\<close>

definition closes :: "event list \<Rightarrow> nat" where
  "closes evs = length (filter (\<lambda>e. e = CallClose) evs)"

definition after_close :: "event list \<Rightarrow> event list" where
  "after_close evs = drop 1 (dropWhile (\<lambda>e. e \<noteq> CallClose) evs)"

fun waits :: "event list \<Rightarrow> nat list" where
  "waits [] = []"
| "waits (Join t # evs) = t # waits evs"
| "waits (e # evs) = waits evs"

definition quiet_event :: "event \<Rightarrow> bool" where
  "quiet_event e = (e \<noteq> CallClose \<and> (\<forall>t. e \<noteq> Join t) \<and> (\<forall>m. e \<noteq> Log WARNING m))"

definition ready :: setupenv where
  "ready = \<lparr>create_socket = Done, accept_thread_starts = True, early_interrupt = False\<rparr>"

definition coordination :: "round list \<Rightarrow> bool \<Rightarrow> bool \<Rightarrow> coordenv" where
  "coordination rs a j =
     \<lparr>before_try = ready, launch = Launched, rounds = rs, alive_after_close = a,
      alive_after_join = j, sockets = quiet\<rparr>"

definition sample_config :: config where
  "sample_config =
     [(KStr (py_str ''base''), [(KStr (py_str ''save_vid''), PBool True)]),
      (KStr (py_str ''logging''), [(KStr (py_str ''use_custom_logging''), PBool True)])]"

definition sample_overrides :: pyval where
  "sample_overrides =
     PDict [(KStr (py_str ''base''), PDict [(KStr (py_str ''save_vid''), PBool False)]),
            (KStr (py_str ''pose''), PDict [(KStr (py_str ''det_frequency''), PInt 5)])]"

text \<open>
  \<open>entered\<close>: the lines before the \<^verbatim>\<open>try\<close> raised nothing. \<open>loop_end\<close> is the round
  that ends the polling loop. \<open>thread_left\<close>: the producer thread was started, the loop
  did not see it dead, and it is alive when the bridge has been closed.
\<close>

definition entered :: "coordenv \<Rightarrow> config \<Rightarrow> pyval \<Rightarrow> bool" where
  "entered env default_config initial_config_overrides =
     (case fst (prelude (before_try env) default_config initial_config_overrides) of
        Inl e \<Rightarrow> False | Inr config_dict \<Rightarrow> True)"

definition loop_end :: "round list \<Rightarrow> round option" where
  "loop_end rs = find (\<lambda>r. r \<noteq> Waited) rs"

definition thread_left :: "coordenv \<Rightarrow> bool" where
  "thread_left env =
     (launch env = Launched \<and> loop_end (rounds env) \<noteq> Some Dead \<and> alive_after_close env)"

text \<open>How the \<^verbatim>\<open>try\<close> block ends after a round that ends the loop.\<close>

fun end_of :: "round \<Rightarrow> try_end" where
  "end_of Dead = Completed"
| "end_of Interrupted = Caught KeyboardInterrupt"
| "end_of InterruptedInJoin = Caught KeyboardInterrupt"
| "end_of Failed = Caught OtherException"
| "end_of Aborted = Uncaught OtherException"
| "end_of Waited = Completed"

section \<open>Properties of the normalization\<close>

lemma collect_map_id:
  "(\<And>x. x \<in> set xs \<Longrightarrow> f x = Inr x) \<Longrightarrow> collect (map f xs) = Inr xs"
  by (induction xs) auto

lemma collect_map_Inr:
  "collect (map f xs) = Inr ys \<longleftrightarrow> list_all2 (\<lambda>x y. f x = Inr y) xs ys"
proof (induction xs arbitrary: ys)
  case Nil
  then show ?case by auto
next
  case (Cons x xs)
  show ?case
  proof (cases "f x")
    case (Inl e)
    then show ?thesis by (auto simp: list_all2_Cons1)
  next
    case (Inr y)
    then show ?thesis
      using Cons by (cases "collect (map f xs)") (auto simp: list_all2_Cons1)
  qed
qed

lemma plain_walk_clean: "plain v \<Longrightarrow> walk_clean v"
  by (induction v rule: plain.induct) auto

lemma walk_clean_fixed: "walk_clean v \<Longrightarrow> convert_numpy_to_list v = Inr v"
proof (induction v rule: convert_numpy_to_list.induct)
  case (1 xs)
  then show ?case by (simp add: collect_map_id on_value_def)
next
  case (2 kvs)
  have "collect (map (\<lambda>(k, v). on_value (Pair k) (convert_numpy_to_list v)) kvs) = Inr kvs"
    using 2 by (intro collect_map_id) (auto simp: on_value_def)
  then show ?case by (simp add: on_value_def)
qed auto


lemma on_value_Inr: "on_value f r = Inr y \<longleftrightarrow> (\<exists>x. r = Inr x \<and> y = f x)"
  by (cases r) (auto simp: on_value_def)

lemma list_all2_right:
  "list_all2 P xs ys \<Longrightarrow> (\<And>x y. x \<in> set xs \<Longrightarrow> P x y \<Longrightarrow> Q y) \<Longrightarrow> y \<in> set ys \<Longrightarrow> Q y"
  by (induction arbitrary: y rule: list_all2_induct) auto

lemma convert_clean:
  "tolist_clean v \<Longrightarrow> convert_numpy_to_list v = Inr w \<Longrightarrow> walk_clean w"
proof (induction v arbitrary: w rule: convert_numpy_to_list.induct)
  case (1 xs)
  from "1.prems"(2) obtain ys where w: "w = PList ys"
    and ys: "list_all2 (\<lambda>x y. convert_numpy_to_list x = Inr y) xs ys"
    by (auto simp: on_value_Inr collect_map_Inr)
  have "walk_clean y" if "y \<in> set ys" for y
    using ys _ that
  proof (rule list_all2_right)
    fix x y assume "x \<in> set xs" "convert_numpy_to_list x = Inr y"
    with "1.IH" "1.prems"(1) show "walk_clean y" by simp
  qed
  with w show ?case by simp
next
  case (2 kvs)
  from "2.prems"(2) obtain ys where w: "w = PDict ys"
    and ys: "list_all2 (\<lambda>kv y. (case kv of (k, v) \<Rightarrow> on_value (Pair k) (convert_numpy_to_list v)) = Inr y) kvs ys"
    by (auto simp: on_value_Inr collect_map_Inr)
  have "walk_clean (snd y)" if "y \<in> set ys" for y
    using ys _ that
  proof (rule list_all2_right)
    fix kv y assume kv: "kv \<in> set kvs"
      and c: "(case kv of (k, v) \<Rightarrow> on_value (Pair k) (convert_numpy_to_list v)) = Inr y"
    from c obtain k v u where "kv = (k, v)" "convert_numpy_to_list v = Inr u" "y = (k, u)"
      by (cases kv) (auto simp: on_value_Inr)
    with "2.IH" "2.prems"(1) kv show "walk_clean (snd y)" by fastforce
  qed
  with w show ?case by auto
qed auto

lemma numeric_seq_plain: "numeric_seq v \<Longrightarrow> plain v"
  by (induction v rule: numeric_seq.induct) auto

lemma map_of_converted:
  "list_all2 (\<lambda>kv y. (case kv of (k, v) \<Rightarrow> on_value (Pair k) (f v)) = Inr y) kvs ys
   \<Longrightarrow> map_of kvs k = Some v \<Longrightarrow> \<exists>u. f v = Inr u \<and> map_of ys k = Some u"
proof (induction arbitrary: v rule: list_all2_induct)
  case Nil
  then show ?case by simp
next
  case (Cons kv kvs y ys)
  obtain k' v' where kv: "kv = (k', v')" by (cases kv)
  with Cons.hyps(1) obtain u' where u': "f v' = Inr u'" "y = (k', u')"
    by (auto simp: on_value_Inr)
  show ?case
  proof (cases "k' = k")
    case True
    with Cons.prems kv u' show ?thesis by simp
  next
    case False
    with Cons kv u' show ?thesis by simp
  qed
qed

lemma at_converted:
  "convert_numpy_to_list v = Inr out \<Longrightarrow> at v p = Some x
   \<Longrightarrow> \<exists>y. convert_numpy_to_list x = Inr y \<and> at out p = Some y"
proof (induction v p arbitrary: out rule: at.induct)
  case (1 v)
  then show ?case by simp
next
  case (2 xs i p)
  from "2.prems" have i: "i < length xs" and x: "at (xs ! i) p = Some x"
    by (auto split: if_splits)
  from "2.prems"(1) obtain ys where out: "out = PList ys"
    and ys: "list_all2 (\<lambda>x y. convert_numpy_to_list x = Inr y) xs ys"
    by (auto simp: on_value_Inr collect_map_Inr)
  from ys i have "convert_numpy_to_list (xs ! i) = Inr (ys ! i)" "i < length ys"
    by (auto dest: list_all2_nthD list_all2_lengthD)
  with "2.IH"[OF i _ x] out show ?case by auto
next
  case (3 kvs k p)
  from "3.prems" obtain v where v: "map_of kvs k = Some v" "at v p = Some x"
    by (auto split: option.splits)
  from "3.prems"(1) obtain ys where out: "out = PDict ys"
    and ys: "list_all2 (\<lambda>kv y. (case kv of (k, v) \<Rightarrow> on_value (Pair k) (convert_numpy_to_list v)) = Inr y) kvs ys"
    by (auto simp: on_value_Inr collect_map_Inr)
  from map_of_converted[OF ys v(1)] obtain u
    where u: "convert_numpy_to_list v = Inr u" "map_of ys k = Some u" by blast
  from "3.IH"[OF v(1) u(1) v(2)] out u(2) show ?case by simp
qed auto


lemma collect_map_Inl:
  "collect (map f xs) = Inl e \<Longrightarrow> \<exists>x \<in> set xs. f x = Inl e"
proof (induction xs)
  case Nil
  then show ?case by simp
next
  case (Cons x xs)
  then show ?case by (cases "f x") (auto split: sum.splits)
qed

lemma collect_map_total:
  "(\<And>x. x \<in> set xs \<Longrightarrow> \<exists>y. f x = Inr y) \<Longrightarrow> \<exists>ys. collect (map f xs) = Inr ys"
proof (induction xs)
  case Nil
  then show ?case by simp
next
  case (Cons x xs)
  from Cons.prems obtain y where "f x = Inr y" by auto
  moreover from Cons obtain ys where "collect (map f xs) = Inr ys" by auto
  ultimately show ?case by auto
qed

lemma on_value_Inl: "on_value f r = Inl e \<longleftrightarrow> r = Inl e"
  by (cases r) (auto simp: on_value_def)

lemma convert_raises:
  "convert_numpy_to_list item = Inl e \<Longrightarrow> e = RecursionError \<and> \<not> walk_acyclic item"
proof (induction item rule: convert_numpy_to_list.induct)
  case (1 xs)
  from "1.prems" obtain x where "x \<in> set xs" "convert_numpy_to_list x = Inl e"
    by (auto simp: on_value_Inl dest: collect_map_Inl)
  with "1.IH" show ?case by auto
next
  case (2 kvs)
  from "2.prems" obtain kv where kv: "kv \<in> set kvs"
    and r: "(case kv of (k, v) \<Rightarrow> on_value (Pair k) (convert_numpy_to_list v)) = Inl e"
    by (auto simp: on_value_Inl dest!: collect_map_Inl)
  obtain k v where eq: "kv = (k, v)" by (cases kv)
  from r eq have v: "convert_numpy_to_list v = Inl e" by (simp add: on_value_Inl)
  from kv eq have mem: "(k, v) \<in> set kvs" by simp
  from "2.IH"[OF mem refl v] have "e = RecursionError" "\<not> walk_acyclic v" by simp_all
  with mem show ?case by auto
qed simp_all

lemma list_all2_left: "list_all2 P xs ys \<Longrightarrow> x \<in> set xs \<Longrightarrow> \<exists>y. P x y"
  by (induction rule: list_all2_induct) auto

lemma convert_acyclic: "convert_numpy_to_list item = Inr out \<Longrightarrow> walk_acyclic item"
proof (induction item arbitrary: out rule: convert_numpy_to_list.induct)
  case (1 xs)
  from "1.prems" obtain ys where
    ys: "list_all2 (\<lambda>x y. convert_numpy_to_list x = Inr y) xs ys"
    by (auto simp: on_value_Inr collect_map_Inr)
  have "walk_acyclic x" if "x \<in> set xs" for x
  proof -
    from list_all2_left[OF ys that] obtain y where "convert_numpy_to_list x = Inr y"
      by blast
    with "1.IH" that show ?thesis by blast
  qed
  then show ?case by simp
next
  case (2 kvs)
  from "2.prems" obtain ys where
    ys: "list_all2 (\<lambda>kv y. (case kv of (k, v) \<Rightarrow> on_value (Pair k) (convert_numpy_to_list v)) = Inr y) kvs ys"
    by (auto simp: on_value_Inr collect_map_Inr)
  have "walk_acyclic v" if mem: "(k, v) \<in> set kvs" for k v
  proof -
    from list_all2_left[OF ys mem] obtain y
      where "on_value (Pair k) (convert_numpy_to_list v) = Inr y"
      by auto
    then obtain u where "convert_numpy_to_list v = Inr u" by (auto simp: on_value_Inr)
    with "2.IH"[OF mem refl] show ?thesis by blast
  qed
  then show ?case by auto
qed simp_all

lemma convert_returns:
  "walk_acyclic item \<Longrightarrow> \<exists>out. convert_numpy_to_list item = Inr out"
proof (cases "convert_numpy_to_list item")
  case (Inl e)
  assume "walk_acyclic item"
  with convert_raises[OF Inl] show ?thesis by simp
next
  case (Inr out)
  then show ?thesis by simp
qed

lemma keys_converted:
  "list_all2 (\<lambda>kv y. (case kv of (k, v) \<Rightarrow> on_value (Pair k) (f v)) = Inr y) kvs ys
   \<Longrightarrow> map fst ys = map fst kvs"
proof (induction rule: list_all2_induct)
  case Nil
  then show ?case by simp
next
  case (Cons kv kvs y ys)
  obtain k v where "kv = (k, v)" by (cases kv)
  with Cons show ?case by (auto simp: on_value_Inr)
qed

lemma convert_node: "convert_numpy_to_list x = Inr y \<Longrightarrow> converted_node x y"
proof (cases x)
  case (PList xs)
  assume "convert_numpy_to_list x = Inr y"
  with PList obtain ys where "y = PList ys"
    "list_all2 (\<lambda>x y. convert_numpy_to_list x = Inr y) xs ys"
    by (auto simp: on_value_Inr collect_map_Inr)
  with PList show ?thesis by (auto dest: list_all2_lengthD)
next
  case (PDict kvs)
  assume "convert_numpy_to_list x = Inr y"
  with PDict obtain ys where "y = PDict ys"
    "list_all2 (\<lambda>kv y. (case kv of (k, v) \<Rightarrow> on_value (Pair k) (convert_numpy_to_list v)) = Inr y) kvs ys"
    by (auto simp: on_value_Inr collect_map_Inr)
  with PDict show ?thesis by (auto dest: keys_converted)
qed auto

lemma list_all2_both:
  "list_all2 P xs ys \<Longrightarrow> (\<And>x y. x \<in> set xs \<Longrightarrow> P x y \<Longrightarrow> Q y = R x)
   \<Longrightarrow> (\<forall>y \<in> set ys. Q y) = (\<forall>x \<in> set xs. R x)"
  by (induction rule: list_all2_induct) auto

lemma convert_plain_iff:
  "convert_numpy_to_list item = Inr out \<Longrightarrow> plain out = walk_plain item"
proof (induction item arbitrary: out rule: convert_numpy_to_list.induct)
  case (1 xs)
  from "1.prems" obtain ys where out: "out = PList ys"
    and ys: "list_all2 (\<lambda>x y. convert_numpy_to_list x = Inr y) xs ys"
    by (auto simp: on_value_Inr collect_map_Inr)
  have "(\<forall>y \<in> set ys. plain y) = (\<forall>x \<in> set xs. walk_plain x)"
    using ys by (rule list_all2_both) (use "1.IH" in blast)
  with out show ?case by simp
next
  case (2 kvs)
  from "2.prems" obtain ys where out: "out = PDict ys"
    and ys: "list_all2 (\<lambda>kv y. (case kv of (k, v) \<Rightarrow> on_value (Pair k) (convert_numpy_to_list v)) = Inr y) kvs ys"
    by (auto simp: on_value_Inr collect_map_Inr)
  have "(\<forall>y \<in> set ys. plain (snd y)) = (\<forall>kv \<in> set kvs. walk_plain (snd kv))"
    using ys
  proof (rule list_all2_both)
    fix kv y assume kv: "kv \<in> set kvs"
      and c: "(case kv of (k, v) \<Rightarrow> on_value (Pair k) (convert_numpy_to_list v)) = Inr y"
    obtain k v where eq: "kv = (k, v)" by (cases kv)
    from c eq obtain u where u: "convert_numpy_to_list v = Inr u" "y = (k, u)"
      by (auto simp: on_value_Inr)
    from kv eq have mem: "(k, v) \<in> set kvs" by simp
    from "2.IH"[OF mem refl u(1)] u(2) eq show "plain (snd y) = walk_plain (snd kv)" by simp
  qed
  with out show ?case by (simp add: case_prod_beta)
qed simp_all

text \<open>
  C10 (amended). The normalization returns every plain value as it is. Applied to its
  own output it returns that output again, for every input whose array-like objects
  (those the walk meets) have \<^verbatim>\<open>tolist()\<close> results that hold no further array-like object
  and no back reference where the walk would meet them.
\<close>

theorem convert_identity_and_idempotent:
  "(plain item \<longrightarrow> convert_numpy_to_list item = Inr item)
   \<and> (tolist_clean item \<longrightarrow> twice item = convert_numpy_to_list item)"
proof (intro conjI impI)
  assume "plain item"
  then have "walk_clean item" by (rule plain_walk_clean)
  then show "convert_numpy_to_list item = Inr item" by (rule walk_clean_fixed)
next
  assume clean: "tolist_clean item"
  show "twice item = convert_numpy_to_list item"
  proof (cases "convert_numpy_to_list item")
    case (Inl e)
    then show ?thesis by (simp add: twice_def)
  next
    case (Inr out)
    with clean have "walk_clean out" by (rule convert_clean)
    then have "convert_numpy_to_list out = Inr out" by (rule walk_clean_fixed)
    with Inr show ?thesis by (simp add: twice_def)
  qed
qed

theorem convert_identity_and_idempotent_witness:
  "plain (PDict [(KInt 1, PList [PInt 1, PStr [104, 105]])])
   \<and> convert_numpy_to_list (PDict [(KInt 1, PList [PInt 1, PStr [104, 105]])])
       = Inr (PDict [(KInt 1, PList [PInt 1, PStr [104, 105]])])
   \<and> tolist_clean (PList [PArray (PList [PInt 1, PInt 2]), PTuple [PObj 0]])
   \<and> twice (PList [PArray (PList [PInt 1, PInt 2]), PTuple [PObj 0]])
       = convert_numpy_to_list (PList [PArray (PList [PInt 1, PInt 2]), PTuple [PObj 0]])"
  using convert_identity_and_idempotent [of "PDict [(KInt 1, PList [PInt 1, PStr [104, 105]])]"]
    convert_identity_and_idempotent [of "PList [PArray (PList [PInt 1, PInt 2]), PTuple [PObj 0]]"]
  by simp

text \<open>
  C10 as stated fails: an object whose \<^verbatim>\<open>tolist()\<close> returns a list that holds an
  array-like object (a numpy array of dtype \<^verbatim>\<open>object\<close> holding arrays does) is
  converted one level only, and a second application converts the next level.
\<close>

theorem convert_not_idempotent:
  "twice (PArray (PList [PArray (PList [PInt 1, PInt 2])]))
   \<noteq> convert_numpy_to_list (PArray (PList [PArray (PList [PInt 1, PInt 2])]))"
  by (simp add: twice_def on_value_def)

text \<open>
  C6 (amended). The normalization walks lists and the values of dicts, nothing else. On
  a record in which that walk meets a cyclic reference it raises \<^verbatim>\<open>RecursionError\<close>. On
  every other record it returns a record in which, at every position the walk reaches,
  an array-like buffer is replaced by the sequence its \<^verbatim>\<open>tolist()\<close> gives (unchanged, so
  with the values and the shape \<^verbatim>\<open>tolist()\<close> gave it; a plain value when that sequence is
  numeric), a list is a list of the same length, a dict a dict with the same keys in
  the same order, and any other value, a tuple with all it holds included, is the value
  itself. The result is made of plain values only exactly when the walk meets nothing
  but scalars and buffers whose \<^verbatim>\<open>tolist()\<close> is plain.
\<close>

theorem normalization_of_buffers:
  "(\<not> walk_acyclic item \<longrightarrow> convert_numpy_to_list item = Inl RecursionError)
   \<and> (walk_acyclic item \<longrightarrow>
        (\<exists>out. convert_numpy_to_list item = Inr out
           \<and> (\<forall>p x. at item p = Some x \<longrightarrow> (\<exists>y. at out p = Some y \<and> converted_node x y))
           \<and> (\<forall>p buf. at item p = Some (PArray buf) \<and> numeric_seq buf
                  \<longrightarrow> at out p = Some buf \<and> plain buf)
           \<and> plain out = walk_plain item))"
proof (intro conjI impI)
  assume "\<not> walk_acyclic item"
  then show "convert_numpy_to_list item = Inl RecursionError"
    by (cases "convert_numpy_to_list item") (auto dest: convert_raises convert_acyclic)
next
  assume "walk_acyclic item"
  then obtain out where out: "convert_numpy_to_list item = Inr out"
    using convert_returns by blast
  have node: "\<exists>y. at out p = Some y \<and> converted_node x y" if "at item p = Some x" for p x
  proof -
    from at_converted[OF out that] obtain y
      where "convert_numpy_to_list x = Inr y" "at out p = Some y" by blast
    then show ?thesis by (auto dest: convert_node)
  qed
  have buf: "at out p = Some buf \<and> plain buf"
    if "at item p = Some (PArray buf) \<and> numeric_seq buf" for p buf
    using at_converted[OF out, of p "PArray buf"] that by (auto dest: numeric_seq_plain)
  from out node buf convert_plain_iff[OF out] show "\<exists>out. convert_numpy_to_list item = Inr out
           \<and> (\<forall>p x. at item p = Some x \<longrightarrow> (\<exists>y. at out p = Some y \<and> converted_node x y))
           \<and> (\<forall>p buf. at item p = Some (PArray buf) \<and> numeric_seq buf
                  \<longrightarrow> at out p = Some buf \<and> plain buf)
           \<and> plain out = walk_plain item"
    by blast
qed

theorem normalization_of_buffers_witness:
  "walk_acyclic (PDict [(KInt 1, PInt 7),
       (KInt 2, PList [PArray (PList [PList [PFloat (FRepr [FDigit 1, FPoint, FDigit 0]),
                                             PFloat (FRepr [FDigit 2, FPoint, FDigit 0])]])])])
   \<and> convert_numpy_to_list (PDict [(KInt 1, PInt 7),
       (KInt 2, PList [PArray (PList [PList [PFloat (FRepr [FDigit 1, FPoint, FDigit 0]),
                                             PFloat (FRepr [FDigit 2, FPoint, FDigit 0])]])])])
     = Inr (PDict [(KInt 1, PInt 7),
       (KInt 2, PList [PList [PList [PFloat (FRepr [FDigit 1, FPoint, FDigit 0]),
                                     PFloat (FRepr [FDigit 2, FPoint, FDigit 0])]]])])
   \<and> plain (PDict [(KInt 1, PInt 7),
       (KInt 2, PList [PList [PList [PFloat (FRepr [FDigit 1, FPoint, FDigit 0]),
                                     PFloat (FRepr [FDigit 2, FPoint, FDigit 0])]]])])"
  using normalization_of_buffers [of
      "PDict [(KInt 1, PInt 7),
         (KInt 2, PList [PArray (PList [PList [PFloat (FRepr [FDigit 1, FPoint, FDigit 0]),
                                               PFloat (FRepr [FDigit 2, FPoint, FDigit 0])]])])]"]
  by (simp add: on_value_def)

text \<open>
  C6 as stated fails: a tuple is no \<^verbatim>\<open>list\<close>, so the walk does not enter it, and a
  buffer inside a tuple is returned as it is. The normalized record still holds the
  array-like object and is not plain.
\<close>

theorem buffer_in_tuple_not_converted:
  "convert_numpy_to_list (PDict [(KStr (py_str ''p''), PTuple [PArray (PList [PInt 1, PInt 2])])])
   = Inr (PDict [(KStr (py_str ''p''), PTuple [PArray (PList [PInt 1, PInt 2])])])
   \<and> \<not> plain (PDict [(KStr (py_str ''p''), PTuple [PArray (PList [PInt 1, PInt 2])])])"
  by (simp add: on_value_def)

section \<open>Properties of the bridge\<close>

text \<open>
  C4. With no consumer registered, \<^verbatim>\<open>send_data\<close> returns at once, whatever the record
  is: no exception, the bridge unchanged, and no event at all, so neither the
  normalization (\<open>Convert\<close>) nor the serialization (\<open>Dumps\<close>) takes place.
\<close>

theorem send_data_no_consumer:
  "clients b = [] \<Longrightarrow> send_data env b data = (None, b, [])"
  by (simp add: send_data_def)

theorem send_data_no_consumer_witness:
  "clients (init ''localhost'' 12345) = []
   \<and> send_data quiet (init ''localhost'' 12345) (PList [PBack 0, PObj 3])
       = (None, init ''localhost'' 12345, [])"
  using send_data_no_consumer [of "init ''localhost'' 12345" quiet "PList [PBack 0, PObj 3]"]
  by (simp add: init_def)

text \<open>
  C5. \<^verbatim>\<open>close()\<close> is idempotent. From any bridge, started or not, and whatever the
  sockets answer (every exception of a socket call is caught inside \<^verbatim>\<open>close\<close>), the
  registry is empty and the listening socket closed after the first call; a second call
  leaves exactly that bridge and touches no consumer socket.
\<close>

theorem close_idempotent:
  "clients (fst (close env b)) = []
   \<and> server_socket (fst (close env b)) = SockClosed
   \<and> fst (close env' (fst (close env b))) = fst (close env b)
   \<and> (\<forall>c r. Shutdown c r \<notin> set (snd (close env' (fst (close env b))))
           \<and> CloseClient c r \<notin> set (snd (close env' (fst (close env b)))))"
proof -
  have first: "fst (close env b) = b\<lparr>clients := [], server_socket := SockClosed\<rparr>"
    by (simp add: close_def)
  have second: "fst (close env' (fst (close env b))) = fst (close env b)"
    by (simp add: close_def)
  have "snd (close env' (fst (close env b)))
        = [Log INFO ''Closing server socket and all client connections.'', Acquire, Release]
          @ (case close_server env' of
               Done \<Rightarrow> [CloseServer Done]
             | SockErr \<Rightarrow> [CloseServer SockErr, Log ERROR ''Error closing server socket'']
             | OtherErr \<Rightarrow>
                 [CloseServer OtherErr, Log ERROR ''Unexpected error closing server socket''])"
    by (simp add: close_def)
  then have "Shutdown c r \<notin> set (snd (close env' (fst (close env b))))
      \<and> CloseClient c r \<notin> set (snd (close env' (fst (close env b))))" for c r
    by (cases "close_server env'") simp_all
  with first second show ?thesis by simp
qed

text \<open>
  The part of C7 that holds. When the port is out of range, or \<^verbatim>\<open>bind\<close> or \<^verbatim>\<open>listen\<close>
  fails, \<^verbatim>\<open>start\<close> ends without entering the accept loop: it does not block, accepts
  nobody, adds no consumer and never reaches the listening state. When the failure is
  a \<^verbatim>\<open>socket.error\<close> (address in use, address not available) the call returns normally
  and its last act is to log the error.
\<close>

lemma start_bind_failure:
  "(65535 < port b \<or> bind_result env \<noteq> Done \<or> listen_result env \<noteq> Done \<longrightarrow>
      (case start env b of (st, b', evs) \<Rightarrow>
         st \<noteq> Blocked \<and> clients b' = clients b
         \<and> (server_socket b' = server_socket b \<or> server_socket b' = Bound)
         \<and> (\<forall>a. Accept a \<notin> set evs) \<and> (\<forall>c. Append c \<notin> set evs)))
   \<and> (port b \<le> 65535
        \<and> (bind_result env = SockErr \<or> (bind_result env = Done \<and> listen_result env = SockErr)) \<longrightarrow>
      (case start env b of (st, b', evs) \<Rightarrow>
         st = Returned \<and> last evs = Log ERROR ''Failed to bind or listen on socket''))"
proof (cases "65535 < port b")
  case True
  then show ?thesis by (simp add: start_def)
next
  case False
  show ?thesis
  proof (cases "bind_result env")
    case Done
    with False show ?thesis
      by (cases "listen_result env") (simp_all add: start_def)
  next
    case SockErr
    with False show ?thesis by (simp add: start_def)
  next
    case OtherErr
    with False show ?thesis by (simp add: start_def)
  qed
qed

lemma start_bind_failure_example:
  "start \<lparr>bind_result = SockErr, listen_result = Done, accepts = [Connected 1]\<rparr>
      (init ''localhost'' 12345)
   = (Returned, init ''localhost'' 12345,
      [BindSocket SockErr, Log ERROR ''Failed to bind or listen on socket''])"
  by (simp add: start_def init_def)


section \<open>Properties of the serialization\<close>

lemma printable_Nil [simp]: "printable []"
  by (simp add: printable_def)

lemma printable_Cons [simp]: "printable (c # s) \<longleftrightarrow> 32 \<le> c \<and> c \<le> 126 \<and> printable s"
  by (auto simp: printable_def)

lemma printable_append [simp]: "printable (s @ t) \<longleftrightarrow> printable s \<and> printable t"
  by (auto simp: printable_def)

lemma printable_concat: "(\<And>s. s \<in> set ss \<Longrightarrow> printable s) \<Longrightarrow> printable (concat ss)"
  by (induction ss) auto

lemma printable_hexdigit: "d < 16 \<Longrightarrow> 32 \<le> hexdigit d \<and> hexdigit d \<le> 126"
  by (simp add: hexdigit_def)

lemma printable_uescape: "printable (uescape n)"
  by (simp add: uescape_def hex4_def printable_hexdigit)

lemma printable_escape_char: "printable (escape_char c)"
  by (simp add: escape_char_def printable_uescape)

lemma printable_basestring: "printable (encode_basestring_ascii s)"
  unfolding encode_basestring_ascii_def
  by (auto intro!: printable_concat simp: printable_escape_char)

lemma printable_digits: "printable (digits n)"
proof (induction n rule: digits.induct)
  case (1 n)
  have "n mod 10 < 10" by simp
  then have m: "48 + n mod 10 \<le> 126" by linarith
  show ?case
  proof (cases "n < 10")
    case True
    then show ?thesis by (subst digits.simps) simp
  next
    case False
    with 1 m show ?thesis by (subst digits.simps) simp
  qed
qed

lemma printable_intstr: "printable (intstr i)"
  by (simp add: intstr_def printable_digits)

lemma printable_fsym: "32 \<le> fsym_code x \<and> fsym_code x \<le> 126"
proof (cases x)
  case (FDigit d)
  have "d mod 10 < 10" by simp
  then have "48 + d mod 10 \<le> 126" by linarith
  with FDigit show ?thesis by simp
qed simp_all

lemma printable_floatstr: "printable (floatstr f)"
proof (cases f)
  case (FRepr t)
  then show ?thesis by (simp add: printable_def printable_fsym)
qed (simp_all add: py_str_def)

lemma printable_join:
  "printable sep \<Longrightarrow> (\<And>s. s \<in> set parts \<Longrightarrow> printable s) \<Longrightarrow> printable (join sep parts)"
  by (induction sep parts rule: join.induct) auto

lemma printable_brackets:
  "32 \<le> l \<Longrightarrow> l \<le> 126 \<Longrightarrow> 32 \<le> r \<Longrightarrow> r \<le> 126
   \<Longrightarrow> (\<And>s. s \<in> set parts \<Longrightarrow> printable s) \<Longrightarrow> printable (brackets l r parts)"
  by (simp add: brackets_def printable_join py_str_def)


lemma json_printable: "json_dumps v = Inr s \<Longrightarrow> printable s"
proof (induction v arbitrary: s rule: json_dumps.induct)
  case (6 xs)
  from "6.prems" obtain parts where s: "s = brackets 91 93 parts"
    and parts: "list_all2 (\<lambda>x y. json_dumps x = Inr y) xs parts"
    by (auto simp: on_value_Inr collect_map_Inr)
  have "printable y" if "y \<in> set parts" for y
    using parts _ that by (rule list_all2_right) (use "6.IH" in blast)
  with s show ?case by (simp add: printable_brackets)
next
  case (7 xs)
  from "7.prems" obtain parts where s: "s = brackets 91 93 parts"
    and parts: "list_all2 (\<lambda>x y. json_dumps x = Inr y) xs parts"
    by (auto simp: on_value_Inr collect_map_Inr)
  have "printable y" if "y \<in> set parts" for y
    using parts _ that by (rule list_all2_right) (use "7.IH" in blast)
  with s show ?case by (simp add: printable_brackets)
next
  case (8 kvs)
  let ?item = "\<lambda>kv. case kv of (k, v) \<Rightarrow>
          (case key_str k of
             Inl e \<Rightarrow> Inl e
           | Inr ks \<Rightarrow>
               on_value (\<lambda>vs. encode_basestring_ascii ks @ py_str '': '' @ vs) (json_dumps v))"
  from "8.prems" obtain parts where s: "s = brackets 123 125 parts"
    and parts: "list_all2 (\<lambda>kv y. ?item kv = Inr y) kvs parts"
    by (auto simp: on_value_Inr collect_map_Inr)
  have "printable y" if "y \<in> set parts" for y
    using parts _ that
  proof (rule list_all2_right)
    fix kv y assume kv: "kv \<in> set kvs" and it: "?item kv = Inr y"
    obtain k v where [simp]: "kv = (k, v)" by (cases kv)
    from it obtain ks vs where ks: "key_str k = Inr ks" and vs: "json_dumps v = Inr vs"
      and y: "y = encode_basestring_ascii ks @ py_str '': '' @ vs"
      by (auto simp: on_value_Inr split: sum.splits)
    from "8.IH"[OF kv _ ks vs] have "printable vs" by simp
    with y show "printable y" by (simp add: printable_basestring py_str_def)
  qed
  with s show ?case by (simp add: printable_brackets)
qed (auto simp: py_str_def printable_intstr printable_floatstr printable_basestring)

lemma utf8_ascii: "(\<forall>c \<in> set s. c < 128) \<Longrightarrow> encode_utf8 s = Inr (map char_of s)"
proof -
  assume a: "\<forall>c \<in> set s. c < 128"
  have "collect (map utf8_char s) = Inr (map (\<lambda>c. [char_of c]) s)"
    using a by (induction s) (auto simp: utf8_char_def)
  moreover have "concat (map (\<lambda>c. [char_of c]) s) = map char_of s"
    by (induction s) auto
  ultimately show ?thesis by (simp add: encode_utf8_def on_value_def)
qed

lemma char_of_10: "char_of (10::nat) = CHR 0x0A"
  by code_simp

lemma char_of_newline: "32 \<le> c \<Longrightarrow> c \<le> 126 \<Longrightarrow> char_of (c::nat) \<noteq> CHR 0x0A"
proof
  assume c: "32 \<le> c" "c \<le> 126" and "char_of c = CHR 0x0A"
  then have "of_char (char_of c) = (of_char (CHR 0x0A) :: nat)" by simp
  with c show False by (simp add: of_char_of)
qed

lemma encode_payload_shape:
  assumes "encode_payload v = Inr p"
  shows "\<exists>j. json_dumps v = Inr j \<and> p = map char_of j @ [CHR 0x0A] \<and> CHR 0x0A \<notin> set (map char_of j)"
proof -
  from assms obtain j where j: "json_dumps v = Inr j" and e: "encode_utf8 (j @ [10]) = Inr p"
    by (auto simp: encode_payload_def split: sum.splits)
  from j have pr: "printable j" by (rule json_printable)
  then have "\<forall>c \<in> set (j @ [10]). c < 128" by (auto simp: printable_def)
  then have "encode_utf8 (j @ [10]) = Inr (map char_of (j @ [10]))" by (rule utf8_ascii)
  with e have p: "p = map char_of j @ [CHR 0x0A]" by (simp add: char_of_10)
  have "CHR 0x0A \<notin> set (map char_of j)"
  proof
    assume "CHR 0x0A \<in> set (map char_of j)"
    then obtain c where c: "c \<in> set j" "char_of c = CHR 0x0A" by auto
    from pr c(1) have "32 \<le> c" "c \<le> 126" by (auto simp: printable_def)
    then have "char_of c \<noteq> CHR 0x0A" by (rule char_of_newline)
    with c(2) show False by contradiction
  qed
  with j p show ?thesis by blast
qed

lemma encode_payload_errors: "encode_payload v = Inl e \<Longrightarrow> json_dumps v = Inl e"
proof -
  assume a: "encode_payload v = Inl e"
  show ?thesis
  proof (cases "json_dumps v")
    case (Inl e')
    with a show ?thesis by (simp add: encode_payload_def)
  next
    case (Inr j)
    then have "printable j" by (rule json_printable)
    then have "\<forall>c \<in> set (j @ [10]). c < 128" by (auto simp: printable_def)
    then have "encode_utf8 (j @ [10]) = Inr (map char_of (j @ [10]))" by (rule utf8_ascii)
    with a Inr show ?thesis by (simp add: encode_payload_def)
  qed
qed

section \<open>Properties of delivery\<close>

lemma delivered_simps [simp]:
  "delivered c [] = []"
  "delivered c (e # evs) = written c e @ delivered c evs"
  "delivered c (evs @ evs') = delivered c evs @ delivered c evs'"
  by (simp_all add: delivered_def)

lemma send_loop_returns:
  "send_loop env p cs cl = (None, cl', evs) \<Longrightarrow> sendall env c p = Done
   \<Longrightarrow> delivered c evs = concat (map (\<lambda>x. if x = c then p else []) cs)
       \<and> (c \<in> set cl \<longrightarrow> c \<in> set cl') \<and> (distinct cl \<longrightarrow> distinct cl')"
proof (induction cs arbitrary: cl cl' evs)
  case Nil
  then show ?case by simp
next
  case (Cons x cs)
  show ?case
  proof (cases "sendall env x p")
    case Done
    with Cons.prems obtain evs0 where "send_loop env p cs cl = (None, cl', evs0)"
      and "evs = Sendall x p Done # evs0"
      by (auto split: prod.splits)
    with Cons.IH[of cl cl' evs0] Cons.prems(2) show ?thesis by simp
  next
    case SockErr
    with Cons.prems(2) have xc: "x \<noteq> c" by auto
    from SockErr Cons.prems(1) have gp: "getpeername env x = Done" and mem: "x \<in> set cl"
      by (auto split: outcome.splits if_splits prod.splits)
    with SockErr Cons.prems(1) obtain evs0 where
      loop: "send_loop env p cs (remove1 x cl) = (None, cl', evs0)"
      and evs: "evs = [Sendall x p SockErr, Getpeername x Done,
                 Log WARNING ''Socket error sending data'', Remove x,
                 CloseClient x (close_client env x)] @ evs0"
      by (auto split: prod.splits)
    from Cons.IH[OF loop Cons.prems(2)] evs xc show ?thesis by auto
  next
    case OtherErr
    with Cons.prems(2) have xc: "x \<noteq> c" by auto
    from OtherErr Cons.prems(1) obtain evs0 where
      loop: "send_loop env p cs cl = (None, cl', evs0)"
      and evs: "evs = [Sendall x p OtherErr, Log ERROR ''Unexpected error sending data''] @ evs0"
      by (auto split: prod.splits)
    from Cons.IH[OF loop Cons.prems(2)] evs xc show ?thesis by auto
  qed
qed

lemma once_distinct:
  "distinct cs \<Longrightarrow> c \<in> set cs \<Longrightarrow> concat (map (\<lambda>x. if x = c then p else []) cs) = p"
  by (induction cs) auto

lemma send_data_returns:
  assumes "send_data env b d = (None, b', evs)" and "c \<in> set (clients b)"
    and "distinct (clients b)" and "\<forall>p. sendall env c p = Done"
  shows "delivered c evs = (case encode d of Inl e \<Rightarrow> [] | Inr p \<Rightarrow> p)
         \<and> c \<in> set (clients b') \<and> distinct (clients b')"
proof -
  from assms(2) have ne: "clients b \<noteq> []" by auto
  show ?thesis
  proof (cases "convert_numpy_to_list d")
    case (Inl e)
    with assms(1) ne show ?thesis by (simp add: send_data_def)
  next
    case (Inr dts)
    show ?thesis
    proof (cases "encode_payload dts")
      case (Inl e)
      with Inr assms ne show ?thesis
        by (auto simp: send_data_def encode_def split: if_splits)
    next
      case p: (Inr p)
      with Inr assms(1) ne obtain cl evs0 where
        loop: "send_loop env p (clients b) (clients b) = (None, cl, evs0)"
        and b': "b' = b\<lparr>clients := cl\<rparr>"
        and evs: "evs = [Convert d, Dumps dts, Acquire] @ evs0 @ [Release]"
        by (auto simp: send_data_def split: prod.splits)
      from assms(4) have "sendall env c p = Done" by simp
      from send_loop_returns[OF loop this] assms(2,3)
      have "delivered c evs0 = p" "c \<in> set cl" "distinct cl"
        by (simp_all add: once_distinct)
      with b' evs Inr p show ?thesis by (simp add: encode_def)
    qed
  qed
qed

lemma send_all_returns:
  "send_all b calls = (None, b', evs) \<Longrightarrow> c \<in> set (clients b) \<Longrightarrow> distinct (clients b)
   \<Longrightarrow> \<forall>(env, d) \<in> set calls. \<forall>p. sendall env c p = Done
   \<Longrightarrow> delivered c evs = concat (payloads (map snd calls)) \<and> c \<in> set (clients b')"
proof (induction calls arbitrary: b evs)
  case Nil
  then show ?case by simp
next
  case (Cons call calls)
  obtain env d where call: "call = (env, d)" by (cases call)
  from Cons.prems(1) call obtain b1 evs1 evs2 where
    one: "send_data env b d = (None, b1, evs1)"
    and more: "send_all b1 calls = (None, b', evs2)"
    and evs: "evs = evs1 @ evs2"
    by (auto split: prod.splits option.splits)
  from Cons.prems(4) call have ok: "\<forall>p. sendall env c p = Done" by simp
  from send_data_returns[OF one Cons.prems(2,3) ok]
  have d1: "delivered c evs1 = (case encode d of Inl e \<Rightarrow> [] | Inr p \<Rightarrow> p)"
    and c1: "c \<in> set (clients b1)" and dist: "distinct (clients b1)" by simp_all
  from Cons.prems(4) have "\<forall>(env, d) \<in> set calls. \<forall>p. sendall env c p = Done" by simp
  from Cons.IH[OF more c1 dist this]
  have "delivered c evs2 = concat (payloads (map snd calls))" "c \<in> set (clients b')"
    by simp_all
  with d1 evs call show ?case by (simp split: sum.splits)
qed

lemma payloads_framed:
  "p \<in> set (payloads ds) \<Longrightarrow> \<exists>j. p = j @ [CHR 0x0A] \<and> CHR 0x0A \<notin> set j"
proof (induction ds)
  case Nil
  then show ?case by simp
next
  case (Cons d ds)
  show ?case
  proof (cases "encode d")
    case (Inl e)
    with Cons show ?thesis by simp
  next
    case (Inr q)
    then obtain dts where "encode_payload dts = Inr q"
      by (auto simp: encode_def split: sum.splits)
    from encode_payload_shape[OF this]
    have "\<exists>j. q = j @ [CHR 0x0A] \<and> CHR 0x0A \<notin> set j" by blast
    with Cons Inr show ?thesis by auto
  qed
qed

lemma split_records_body:
  "CHR 0x0A \<notin> set j \<Longrightarrow> split_records acc (j @ CHR 0x0A # rest) = (rev acc @ j) # split_records [] rest"
  by (induction j arbitrary: acc) auto

lemma split_records_concat:
  "(\<And>p. p \<in> set ps \<Longrightarrow> \<exists>j. p = j @ [CHR 0x0A] \<and> CHR 0x0A \<notin> set j)
   \<Longrightarrow> split_records [] (concat ps) = map butlast ps"
proof (induction ps)
  case Nil
  then show ?case by simp
next
  case (Cons p ps)
  from Cons.prems obtain j where j: "p = j @ [CHR 0x0A]" "CHR 0x0A \<notin> set j" by auto
  have "split_records [] (concat ps) = map butlast ps"
    using Cons by simp
  with j show ?case by (simp add: split_records_body)
qed

text \<open>
  The part of C1 that holds. Take any sequence of \<^verbatim>\<open>send_data\<close> calls that all return,
  and a registered consumer whose writes succeed. That consumer is sent exactly the
  payloads of the records that encode, one after the other in the order of the calls;
  each payload is the serialized record followed by a newline and holds no other
  newline; cutting the stream at the newlines gives the records back, one per encoded
  call, in order; and the consumer is still registered at the end.
\<close>

lemma delivery_in_order:
  assumes "send_all b calls = (None, b', evs)"
    and "c \<in> set (clients b)" and "distinct (clients b)"
    and "\<forall>(env, d) \<in> set calls. \<forall>p. sendall env c p = Done"
  shows "delivered c evs = concat (payloads (map snd calls))
         \<and> (\<forall>p \<in> set (payloads (map snd calls)). \<exists>j. p = j @ [CHR 0x0A] \<and> CHR 0x0A \<notin> set j)
         \<and> split_records [] (delivered c evs) = map butlast (payloads (map snd calls))
         \<and> c \<in> set (clients b')"
proof -
  from send_all_returns[OF assms]
  have stream: "delivered c evs = concat (payloads (map snd calls))"
    and still: "c \<in> set (clients b')" by simp_all
  have framed: "\<exists>j. p = j @ [CHR 0x0A] \<and> CHR 0x0A \<notin> set j"
    if "p \<in> set (payloads (map snd calls))" for p
    using that by (rule payloads_framed)
  then have "split_records [] (concat (payloads (map snd calls)))
             = map butlast (payloads (map snd calls))"
    by (rule split_records_concat)
  with stream still framed show ?thesis by simp
qed

lemma delivery_in_order_example:
  "fst (send_all two_consumers session) = None
   \<and> delivered 1 (snd (snd (send_all two_consumers session)))
       = ''{\"frame\": 1}'' @ [CHR 0x0A] @ ''{\"frame\": 2}'' @ [CHR 0x0A]
   \<and> split_records [] (delivered 1 (snd (snd (send_all two_consumers session))))
       = [''{\"frame\": 1}'', ''{\"frame\": 2}'']
   \<and> clients (fst (snd (send_all two_consumers session))) = [1]"
proof -
  have none: "fst (send_all two_consumers session) = None"
    by code_simp
  then have run: "send_all two_consumers session
      = (None, fst (snd (send_all two_consumers session)),
         snd (snd (send_all two_consumers session)))"
    by (simp add: prod_eq_iff)
  have reg: "1 \<in> set (clients two_consumers)" and dist: "distinct (clients two_consumers)"
    by (simp_all add: two_consumers_def)
  have ok: "\<forall>(env, d) \<in> set session. \<forall>p. sendall env 1 p = Done"
    by (simp add: session_def quiet_def failing_def)
  have sent: "payloads (map snd session)
      = [''{\"frame\": 1}'' @ [CHR 0x0A], ''{\"frame\": 2}'' @ [CHR 0x0A]]"
    by code_simp
  have left: "clients (fst (snd (send_all two_consumers session))) = [1]"
    by code_simp
  from delivery_in_order[OF run reg dist ok] sent left none show ?thesis
    by simp
qed

text \<open>
  C1 fails on the code when a call does not return. Consumer 1 is gone and its
  \<^verbatim>\<open>getpeername()\<close> raises inside the handler of the write failure (the defect of C2):
  the exception ends the loop, and consumer 2, whose writes succeed, is never sent the
  record, though the record encodes.
\<close>

theorem healthy_consumer_misses_record:
  "send_all two_consumers [(failing 1 SockErr, frame 3)]
   = (Some SocketError, two_consumers,
      [Convert (frame 3), Dumps (frame 3), Acquire,
       Sendall 1 (''{\"frame\": 3}'' @ [CHR 0x0A]) SockErr, Getpeername 1 SockErr, Release])
   \<and> sendall (failing 1 SockErr) 2 (''{\"frame\": 3}'' @ [CHR 0x0A]) = Done
   \<and> payloads [frame 3] = [''{\"frame\": 3}'' @ [CHR 0x0A]]
   \<and> delivered 2 (snd (snd (send_all two_consumers [(failing 1 SockErr, frame 3)]))) = []"
  by code_simp

text \<open>
  The part of C2 that holds. When \<^verbatim>\<open>getpeername()\<close> still answers on every consumer
  whose \<^verbatim>\<open>sendall\<close> raises \<^verbatim>\<open>socket.error\<close>, the call returns, exactly the consumers
  whose write raised \<^verbatim>\<open>socket.error\<close> are removed, and every registered consumer was
  written to.
\<close>

lemma remove1_filter_distinct: "distinct cl \<Longrightarrow> remove1 x cl = filter (\<lambda>c. c \<noteq> x) cl"
  by (simp add: distinct_remove1_removeAll removeAll_filter_not_eq) (metis)

lemma send_loop_isolates:
  assumes "\<forall>c \<in> set cs. sendall env c p = SockErr \<longrightarrow> getpeername env c = Done"
    and "distinct cl" and "set cs \<subseteq> set cl" and "distinct cs"
  shows "\<exists>evs. send_loop env p cs cl
            = (None, filter (\<lambda>c. c \<notin> set cs \<or> sendall env c p \<noteq> SockErr) cl, evs)
          \<and> (\<forall>c \<in> set cs. Sendall c p (sendall env c p) \<in> set evs)"
  using assms
proof (induction cs arbitrary: cl)
  case Nil
  then show ?case by simp
next
  case (Cons x cs)
  show ?case
  proof (cases "sendall env x p")
    case Done
    from Cons.IH[of cl] Cons.prems obtain evs where
      loop: "send_loop env p cs cl
            = (None, filter (\<lambda>c. c \<notin> set cs \<or> sendall env c p \<noteq> SockErr) cl, evs)"
      and all: "\<forall>c \<in> set cs. Sendall c p (sendall env c p) \<in> set evs" by auto
    have "filter (\<lambda>c. c \<notin> set cs \<or> sendall env c p \<noteq> SockErr) cl
          = filter (\<lambda>c. c \<notin> set (x # cs) \<or> sendall env c p \<noteq> SockErr) cl"
      using Done by (intro filter_cong) auto
    with loop all Done show ?thesis by auto
  next
    case OtherErr
    from Cons.IH[of cl] Cons.prems obtain evs where
      loop: "send_loop env p cs cl
            = (None, filter (\<lambda>c. c \<notin> set cs \<or> sendall env c p \<noteq> SockErr) cl, evs)"
      and all: "\<forall>c \<in> set cs. Sendall c p (sendall env c p) \<in> set evs" by auto
    have "filter (\<lambda>c. c \<notin> set cs \<or> sendall env c p \<noteq> SockErr) cl
          = filter (\<lambda>c. c \<notin> set (x # cs) \<or> sendall env c p \<noteq> SockErr) cl"
      using OtherErr by (intro filter_cong) auto
    with loop all OtherErr show ?thesis by auto
  next
    case SockErr
    with Cons.prems have gp: "getpeername env x = Done" and mem: "x \<in> set cl" by auto
    let ?cl = "remove1 x cl"
    from Cons.prems(2) have d: "distinct ?cl" by simp
    have rm: "?cl = filter (\<lambda>c. c \<noteq> x) cl"
      using Cons.prems(2) by (rule remove1_filter_distinct)
    from Cons.prems(4) have False: "x \<notin> set cs" and dcs: "distinct cs" by simp_all
    show ?thesis
    proof -
      from False Cons.prems(3) have sub: "set cs \<subseteq> set ?cl" using Cons.prems(2) by auto
      from Cons.IH[OF _ d sub dcs] Cons.prems(1) obtain evs where
        loop: "send_loop env p cs ?cl
              = (None, filter (\<lambda>c. c \<notin> set cs \<or> sendall env c p \<noteq> SockErr) ?cl, evs)"
        and all: "\<forall>c \<in> set cs. Sendall c p (sendall env c p) \<in> set evs" by auto
      have "filter (\<lambda>c. c \<notin> set cs \<or> sendall env c p \<noteq> SockErr) ?cl
            = filter (\<lambda>c. c \<notin> set (x # cs) \<or> sendall env c p \<noteq> SockErr) cl"
        unfolding rm filter_filter using SockErr by (intro filter_cong) auto
      with loop all SockErr gp mem show ?thesis by auto
    qed
  qed
qed

lemma send_data_isolates:
  assumes "encode d = Inr p" and "clients b \<noteq> []" and "distinct (clients b)"
    and "\<forall>c \<in> set (clients b). sendall env c p = SockErr \<longrightarrow> getpeername env c = Done"
  shows "\<exists>evs. send_data env b d
            = (None, b\<lparr>clients := filter (\<lambda>c. sendall env c p \<noteq> SockErr) (clients b)\<rparr>, evs)
          \<and> (\<forall>c \<in> set (clients b). Sendall c p (sendall env c p) \<in> set evs)"
proof -
  from assms(1) obtain dts where conv: "convert_numpy_to_list d = Inr dts"
    and enc: "encode_payload dts = Inr p"
    by (auto simp: encode_def split: sum.splits)
  from send_loop_isolates[OF assms(4,3) subset_refl assms(3)] obtain evs where
    loop: "send_loop env p (clients b) (clients b)
           = (None, filter (\<lambda>c. c \<notin> set (clients b) \<or> sendall env c p \<noteq> SockErr) (clients b), evs)"
    and all: "\<forall>c \<in> set (clients b). Sendall c p (sendall env c p) \<in> set evs" by blast
  have "filter (\<lambda>c. c \<notin> set (clients b) \<or> sendall env c p \<noteq> SockErr) (clients b)
        = filter (\<lambda>c. sendall env c p \<noteq> SockErr) (clients b)"
    by (intro filter_cong) auto
  with loop conv enc assms(2) all show ?thesis
    by (simp add: send_data_def)
qed

text \<open>An instance: consumer 1 is gone, consumer 2 is still served.\<close>

lemma send_data_prunes_one:
  "send_data (failing 1 Done) two_consumers (frame 3)
   = (None, two_consumers\<lparr>clients := [2]\<rparr>,
      [Convert (frame 3), Dumps (frame 3), Acquire,
       Sendall 1 (''{\"frame\": 3}'' @ [CHR 0x0A]) SockErr, Getpeername 1 Done,
       Log WARNING ''Socket error sending data'', Remove 1, CloseClient 1 Done,
       Sendall 2 (''{\"frame\": 3}'' @ [CHR 0x0A]) Done, Release])"
  by code_simp

text \<open>
  C2 fails on the code. The handler of the write failure builds its warning with
  \<^verbatim>\<open>client.getpeername()\<close>, and on a socket whose peer is gone that call raises
  \<^verbatim>\<open>OSError\<close> (not connected). The exception leaves the handler before
  \<^verbatim>\<open>self.clients.remove(client)\<close>: it escapes \<^verbatim>\<open>send_data\<close>, the broken consumer 1 stays
  registered and is not closed, and consumer 2 is never written to.
\<close>

theorem send_data_write_failure_escapes:
  "send_data (failing 1 SockErr) two_consumers (frame 3)
   = (Some SocketError, two_consumers,
      [Convert (frame 3), Dumps (frame 3), Acquire,
       Sendall 1 (''{\"frame\": 3}'' @ [CHR 0x0A]) SockErr, Getpeername 1 SockErr, Release])"
  by code_simp

text \<open>
  The part of C3 that holds: when the normalized record holds a value the serializer
  cannot print (\<^verbatim>\<open>TypeError\<close>), the record is dropped with an error logged, the bridge is
  unchanged, and nothing is written to any consumer.
\<close>

lemma send_data_unserializable:
  assumes "convert_numpy_to_list d = Inr dts" and "json_dumps dts = Inl TypeError"
    and "clients b \<noteq> []"
  shows "send_data env b d
         = (None, b, [Convert d, Dumps dts, Log ERROR ''JSON serialization error''])"
  using assms by (simp add: send_data_def encode_payload_def)

lemma send_data_cycle_through_tuple:
  "send_data quiet two_consumers (PTuple [PList [PBack 1]])
   = (Some ValueError, two_consumers,
      [Convert (PTuple [PList [PBack 1]]), Dumps (PTuple [PList [PBack 1]])])"
  by code_simp

text \<open>
  C3 fails on the code for cyclic records. The normalization stands outside the
  \<^verbatim>\<open>try\<close>, and on a list that holds itself it recurses until \<^verbatim>\<open>RecursionError\<close>; a
  cycle the walk does not enter (through a tuple) reaches \<^verbatim>\<open>json.dumps\<close>, which raises
  \<^verbatim>\<open>ValueError\<close>, and the \<^verbatim>\<open>try\<close> catches \<^verbatim>\<open>TypeError\<close> only. Either way the exception
  escapes \<^verbatim>\<open>send_data\<close> instead of being logged; no byte is sent.
\<close>

theorem send_data_cyclic_record_escapes:
  "send_data quiet two_consumers (PList [PBack 0])
   = (Some RecursionError, two_consumers, [Convert (PList [PBack 0])])"
  by code_simp

section \<open>Properties of the locking\<close>

lemma send_loop_locked:
  "send_loop env p cs cl = (ex, cl', evs)
   \<Longrightarrow> under_lock True (evs @ rest) = under_lock True rest \<and> acquisitions evs = 0"
proof (induction cs arbitrary: cl ex cl' evs)
  case Nil
  then show ?case by (simp add: acquisitions_def)
next
  case (Cons x cs)
  show ?case
  proof (cases "sendall env x p")
    case Done
    with Cons.prems obtain evs0 where "send_loop env p cs cl = (ex, cl', evs0)"
      and "evs = Sendall x p Done # evs0"
      by (auto split: prod.splits)
    with Cons.IH[of cl ex cl' evs0] show ?thesis by (simp add: acquisitions_def)
  next
    case SockErr
    show ?thesis
    proof (cases "getpeername env x = Done \<and> x \<in> set cl")
      case True
      with SockErr Cons.prems obtain evs0 where
        loop: "send_loop env p cs (remove1 x cl) = (ex, cl', evs0)"
        and evs: "evs = [Sendall x p SockErr, Getpeername x Done,
                   Log WARNING ''Socket error sending data'', Remove x,
                   CloseClient x (close_client env x)] @ evs0"
        by (auto split: prod.splits)
      from Cons.IH[OF loop] evs show ?thesis by (simp add: acquisitions_def)
    next
      case False
      with SockErr Cons.prems show ?thesis
        by (auto simp: acquisitions_def split: outcome.splits if_splits)
    qed
  next
    case OtherErr
    with Cons.prems obtain evs0 where
      loop: "send_loop env p cs cl = (ex, cl', evs0)"
      and evs: "evs = [Sendall x p OtherErr, Log ERROR ''Unexpected error sending data''] @ evs0"
      by (auto split: prod.splits)
    from Cons.IH[OF loop] evs show ?thesis by (simp add: acquisitions_def)
  qed
qed

text \<open>
  C8 (amended). Every \<^verbatim>\<open>send_data\<close> call takes the lock at most once, and exactly once
  when there is a consumer and the record encodes. The writes to the consumers, the
  \<^verbatim>\<open>getpeername\<close> calls, the removals and the closes all happen while that one lock is
  held, and the lock is free again when the call ends, also when an exception leaves it.
\<close>

theorem send_data_holds_lock:
  "under_lock False (snd (snd (send_data env b d)))
   \<and> acquisitions (snd (snd (send_data env b d))) \<le> 1
   \<and> (clients b \<noteq> [] \<and> (\<exists>p. encode d = Inr p)
        \<longrightarrow> acquisitions (snd (snd (send_data env b d))) = 1)"
proof (cases "clients b = []")
  case True
  then show ?thesis by (simp add: send_data_def acquisitions_def)
next
  case ne: False
  show ?thesis
  proof (cases "convert_numpy_to_list d")
    case (Inl e)
    with ne show ?thesis by (simp add: send_data_def acquisitions_def encode_def)
  next
    case (Inr dts)
    show ?thesis
    proof (cases "encode_payload dts")
      case (Inl e)
      with Inr ne show ?thesis by (simp add: send_data_def acquisitions_def encode_def)
    next
      case p: (Inr p)
      obtain ex cl evs0 where loop: "send_loop env p (clients b) (clients b) = (ex, cl, evs0)"
        by (cases "send_loop env p (clients b) (clients b)") auto
      from send_loop_locked[OF loop, of "[Release]"]
      have "under_lock True (evs0 @ [Release])" "acquisitions evs0 = 0" by simp_all
      with Inr p ne loop show ?thesis
        by (simp add: send_data_def acquisitions_def encode_def)
    qed
  qed
qed

theorem send_data_holds_lock_witness:
  "clients two_consumers \<noteq> []
   \<and> encode (frame 3) = Inr (''{\"frame\": 3}'' @ [CHR 0x0A])
   \<and> under_lock False (snd (snd (send_data (failing 1 Done) two_consumers (frame 3))))
   \<and> acquisitions (snd (snd (send_data (failing 1 Done) two_consumers (frame 3)))) = 1"
proof -
  have ne: "clients two_consumers \<noteq> []" by (simp add: two_consumers_def)
  have enc: "encode (frame 3) = Inr (''{\"frame\": 3}'' @ [CHR 0x0A])" by code_simp
  from send_data_holds_lock [of "failing 1 Done" two_consumers "frame 3"] ne enc
  show ?thesis by simp
qed

text \<open>
  C8 as stated fails: the loop of writes stands inside \<^verbatim>\<open>with self.lock\<close>, so a write
  happens while the lock is held, and the removal of a failed consumer happens under
  that same acquisition, not a second one.
\<close>

theorem send_data_writes_under_lock:
  "\<not> io_outside_lock False (snd (snd (send_data (failing 1 Done) two_consumers (frame 3))))
   \<and> acquisitions (snd (snd (send_data (failing 1 Done) two_consumers (frame 3)))) = 1"
  by code_simp

section \<open>Properties of the lifecycle coordinator\<close>

lemma waits_append [simp]: "waits (xs @ ys) = waits xs @ waits ys"
  by (induction xs rule: waits.induct) auto

lemma waits_quiet: "(\<And>e. e \<in> set evs \<Longrightarrow> quiet_event e) \<Longrightarrow> waits evs = []"
  by (induction evs rule: waits.induct) (auto simp: quiet_event_def)

lemma closes_append [simp]: "closes (xs @ ys) = closes xs + closes ys"
  by (simp add: closes_def)

lemma closes_none: "CallClose \<notin> set evs \<Longrightarrow> closes evs = 0"
  by (induction evs) (auto simp: closes_def)

lemma after_close_first:
  "CallClose \<notin> set pre \<Longrightarrow> after_close (pre @ CallClose # later) = later"
  by (induction pre) (auto simp: after_close_def)

lemma close_one_quiet: "e \<in> set (close_one env c) \<Longrightarrow> quiet_event e"
  by (cases "shutdown env c"; cases "close_client env c")
     (auto simp: close_one_def quiet_event_def)

lemma close_quiet: "e \<in> set (snd (close env b)) \<Longrightarrow> quiet_event e"
  by (cases "close_server env")
     (auto simp: close_def quiet_event_def dest: close_one_quiet)

lemma close_state:
  "clients (fst (close env b)) = [] \<and> server_socket (fst (close env b)) = SockClosed"
  by (simp add: close_def)


lemma poll_events:
  "poll rs = Some (e, evs)
   \<Longrightarrow> set evs \<subseteq> {Join 500} \<and> (\<exists>r. loop_end rs = Some r \<and> r \<noteq> Waited \<and> e = end_of r)"
proof (induction rs arbitrary: e evs)
  case Nil
  then show ?case by simp
next
  case (Cons r rs)
  show ?case
  proof (cases r)
    case Waited
    with Cons.prems obtain evs0 where "poll rs = Some (e, evs0)" "evs = Join 500 # evs0"
      by (auto split: option.splits)
    with Cons.IH[of e evs0] Waited show ?thesis by (auto simp: loop_end_def)
  qed (use Cons.prems in \<open>auto simp: loop_end_def\<close>)
qed

lemma try_block_events:
  assumes "try_block env c = Some (e, th, evs)"
  shows "CallClose \<notin> set evs \<and> (\<forall>m. Log WARNING m \<notin> set evs)
         \<and> (launch env = Launched \<longrightarrow>
               th \<and> (\<exists>r. loop_end (rounds env) = Some r \<and> r \<noteq> Waited \<and> e = end_of r))
         \<and> (launch env \<noteq> Launched \<longrightarrow> e = Caught OtherException)"
proof (cases "launch env")
  case Launched
  with assms obtain evs0 where p: "poll (rounds env) = Some (e, evs0)"
    and evs: "evs = [Log INFO ''Starting Sports2D.process in a new thread...'', StartThread c] @ evs0"
    and th: "th"
    by (auto simp: try_block_def split: option.splits)
  from poll_events[OF p] evs th Launched show ?thesis by auto
next
  case CreateFailed
  with assms show ?thesis by (auto simp: try_block_def)
next
  case StartFailed
  with assms show ?thesis by (auto simp: try_block_def)
qed

lemma handlers_events:
  "CallClose \<notin> set (handlers e) \<and> (\<forall>m. Log WARNING m \<notin> set (handlers e))"
  by (cases e) (auto simp: handlers_def)


lemma finally_block_shape:
  "finally_block env b alive =
     (fst (close (sockets env) b),
      [Log INFO ''Initiating shutdown of the bridge...'', CallClose]
      @ snd (close (sockets env) b)
      @ (if alive \<and> alive_after_close env then
           [Log INFO ''Sports2D process thread is still alive, waiting for it to join (max 5s)...'',
            Join 5000]
           @ (if alive_after_join env then
                [Log WARNING ''Sports2D process thread did not terminate gracefully.'']
              else [])
         else [])
      @ [Log INFO ''Sports2D Unity Bridge finished.''])"
  by (simp add: finally_block_def split: prod.splits)


lemma prelude_events:
  "prelude se dc ov = (r, evs) \<Longrightarrow> CallClose \<notin> set evs \<and> (\<forall>m. Log WARNING m \<notin> set evs)"
  by (auto simp: prelude_def split: if_splits sum.splits)

text \<open>
  The coordinator returns exactly when a line before the \<^verbatim>\<open>try\<close> raises, the producer
  thread could not be started, or some polling round ends the loop (the thread is dead,
  or an exception is raised).
\<close>

lemma poll_returns: "(poll rs \<noteq> None) = (\<exists>r \<in> set rs. r \<noteq> Waited)"
proof (induction rs)
  case Nil
  then show ?case by simp
next
  case (Cons r rs)
  then show ?case by (cases r) (auto split: option.splits)
qed

lemma process_with_unity_returns:
  "(process_with_unity env default_config initial_config_overrides b \<noteq> None)
   = (\<not> entered env default_config initial_config_overrides
      \<or> launch env \<noteq> Launched \<or> (\<exists>r \<in> set (rounds env). r \<noteq> Waited))"
proof -
  obtain r0 evs0 where pre: "prelude (before_try env) default_config initial_config_overrides = (r0, evs0)"
    by (cases "prelude (before_try env) default_config initial_config_overrides") auto
  show ?thesis
  proof (cases r0)
    case (Inl e)
    with pre show ?thesis by (simp add: process_with_unity_def entered_def)
  next
    case (Inr c)
    show ?thesis
    proof (cases "launch env")
      case Launched
      with poll_returns[of "rounds env"] pre Inr show ?thesis
        by (auto simp: process_with_unity_def try_block_def entered_def
            split: option.splits prod.splits)
    qed (use pre Inr in \<open>auto simp: process_with_unity_def try_block_def entered_def
            split: prod.splits\<close>)
  qed
qed

text \<open>
  The part of C9 that holds. Every run of the coordinator that enters its \<^verbatim>\<open>try\<close> block
  and ends, however the \<^verbatim>\<open>try\<close> block ended (the producer thread is dead after
  completing or failing, an interrupt, an exception), calls \<^verbatim>\<open>bridge.close()\<close> exactly
  once and leaves the bridge as \<^verbatim>\<open>close()\<close> leaves it: registry empty, listening socket
  closed. After the close it waits once, for five seconds, exactly when the producer
  thread is still alive then, and not at all otherwise; it logs the warning exactly when
  the thread is still alive after that wait; and in every case its last act is the
  final log line. No exception leaves it unless a \<^verbatim>\<open>BaseException\<close> other than
  \<^verbatim>\<open>KeyboardInterrupt\<close> ended the polling loop.
\<close>

lemma coordinator_closes_bridge:
  assumes "process_with_unity env default_config initial_config_overrides b = Some (ex, b', evs)"
    and "entered env default_config initial_config_overrides"
  shows "closes evs = 1
         \<and> b' = fst (close (sockets env) b) \<and> clients b' = [] \<and> server_socket b' = SockClosed
         \<and> waits (after_close evs) = (if thread_left env then [5000] else [])
         \<and> (Log WARNING ''Sports2D process thread did not terminate gracefully.'' \<in> set evs)
             = (thread_left env \<and> alive_after_join env)
         \<and> last evs = Log INFO ''Sports2D Unity Bridge finished.''
         \<and> (ex = None) = (launch env \<noteq> Launched \<or> loop_end (rounds env) \<noteq> Some Aborted)"
proof -
  obtain r0 evs0 where pre: "prelude (before_try env) default_config initial_config_overrides = (r0, evs0)"
    by (cases "prelude (before_try env) default_config initial_config_overrides") auto
  with assms(2) obtain c where r0: "r0 = Inr c"
    by (cases r0) (auto simp: entered_def)
  from assms(1) pre r0 obtain e th pre_evs where tb: "try_block env c = Some (e, th, pre_evs)"
    by (auto simp: process_with_unity_def split: option.splits)
  define alive where "alive = (th \<and> launch env = Launched \<and> e \<noteq> Completed)"
  define cev where "cev = snd (close (sockets env) b)"
  define grace where "grace =
      (if alive \<and> alive_after_close env then
         [Log INFO ''Sports2D process thread is still alive, waiting for it to join (max 5s)...'',
          Join 5000]
         @ (if alive_after_join env then
              [Log WARNING ''Sports2D process thread did not terminate gracefully.'']
            else [])
       else [])"
  define before where
    "before = evs0 @ pre_evs @ handlers e @ [Log INFO ''Initiating shutdown of the bridge...'']"
  from assms(1) pre r0 tb have b': "b' = fst (close (sockets env) b)"
    and ex: "ex = (case e of Uncaught x \<Rightarrow> Some x | _ \<Rightarrow> None)"
    and evs: "evs = before @ CallClose # (cev @ grace @ [Log INFO ''Sports2D Unity Bridge finished.''])"
    by (simp_all add: process_with_unity_def finally_block_shape alive_def cev_def grace_def
        before_def)
  from try_block_events[OF tb]
  have tb1: "CallClose \<notin> set pre_evs" "\<forall>m. Log WARNING m \<notin> set pre_evs"
    and tb2: "launch env = Launched \<longrightarrow>
               th \<and> (\<exists>r. loop_end (rounds env) = Some r \<and> r \<noteq> Waited \<and> e = end_of r)"
    and tb3: "launch env \<noteq> Launched \<longrightarrow> e = Caught OtherException"
    by simp_all
  from prelude_events[OF pre] tb1 handlers_events[of e]
  have nb: "CallClose \<notin> set before" and wb: "\<forall>m. Log WARNING m \<notin> set before"
    by (auto simp: before_def)
  have left: "(alive \<and> alive_after_close env) = thread_left env"
  proof (cases "launch env = Launched")
    case True
    with tb2 obtain r where r: "loop_end (rounds env) = Some r" "r \<noteq> Waited" "e = end_of r"
      and th: "th" by blast
    from r(2,3) have "(e \<noteq> Completed) = (r \<noteq> Dead)" by (cases r) auto
    with True r(1) th show ?thesis by (auto simp: alive_def thread_left_def)
  next
    case False
    then show ?thesis by (simp add: alive_def thread_left_def)
  qed
  have exn: "(ex = None) = (launch env \<noteq> Launched \<or> loop_end (rounds env) \<noteq> Some Aborted)"
  proof (cases "launch env = Launched")
    case True
    with tb2 obtain r where r: "loop_end (rounds env) = Some r" "r \<noteq> Waited" "e = end_of r"
      by blast
    then show ?thesis using True ex by (cases r) auto
  next
    case False
    with tb3 ex show ?thesis by simp
  qed
  have qc: "quiet_event x" if "x \<in> set cev" for x
    using that unfolding cev_def by (rule close_quiet)
  then have wc: "waits cev = []" by (rule waits_quiet)
  from qc have nc: "CallClose \<notin> set cev" and wrn: "\<forall>m. Log WARNING m \<notin> set cev"
    by (auto simp: quiet_event_def)
  have ng: "CallClose \<notin> set grace" by (simp add: grace_def)
  have "closes (CallClose # (cev @ grace @ [Log INFO ''Sports2D Unity Bridge finished.''])) = 1"
    using nc ng by (auto simp: closes_def filter_empty_conv)
  with nb have "closes evs = 1"
    by (simp add: evs closes_none)
  moreover from b' have "clients b' = []" "server_socket b' = SockClosed"
    by (simp_all add: close_state)
  moreover from nb have ac: "after_close evs = cev @ grace @ [Log INFO ''Sports2D Unity Bridge finished.'']"
    unfolding evs by (rule after_close_first)
  have wg: "waits (after_close evs) = waits grace"
    by (simp add: ac wc)
  have "waits grace = (if thread_left env then [5000] else [])"
    using left by (auto simp: grace_def)
  moreover have "(Log WARNING ''Sports2D process thread did not terminate gracefully.'' \<in> set evs)
      = (thread_left env \<and> alive_after_join env)"
    using wb wrn left by (auto simp: evs grace_def)
  moreover have "last evs = Log INFO ''Sports2D Unity Bridge finished.''"
    by (simp add: evs)
  ultimately show ?thesis using b' exn by (simp add: wg)
qed

lemma coordinator_closes_bridge_example:
  "entered (coordination [Waited, Interrupted] True True) sample_config sample_overrides
   \<and> process_with_unity (coordination [Waited, Interrupted] True True)
      sample_config sample_overrides two_consumers
   = Some (None, two_consumers\<lparr>clients := [], server_socket := SockClosed\<rparr>,
       [CreateBridge, StartAcceptThread,
        Log INFO ''Starting Sports2D.process in a new thread...'',
        StartThread
          (PDict [(KStr (py_str ''base''), PDict [(KStr (py_str ''save_vid''), PBool False)]),
                (KStr (py_str ''logging''),
                 PDict [(KStr (py_str ''use_custom_logging''), PBool False)]),
                (KStr (py_str ''pose''), PDict [(KStr (py_str ''det_frequency''), PInt 5)]),
                (KStr (py_str ''process_callback_for_unity''), PObj 0)]),
        Join 500,
        Log INFO ''KeyboardInterrupt received. Shutting down bridge and Sports2D process.'',
        Log INFO ''Initiating shutdown of the bridge...'', CallClose,
        Log INFO ''Closing server socket and all client connections.'', Acquire,
        Shutdown 1 Done, CloseClient 1 Done, Shutdown 2 Done, CloseClient 2 Done,
        Release, CloseServer Done,
        Log INFO ''Sports2D process thread is still alive, waiting for it to join (max 5s)...'',
        Join 5000,
        Log WARNING ''Sports2D process thread did not terminate gracefully.'',
        Log INFO ''Sports2D Unity Bridge finished.''])
   \<and> closes (snd (snd (the (process_with_unity (coordination [Waited, Interrupted] True True)
           sample_config sample_overrides two_consumers)))) = 1
   \<and> waits (after_close (snd (snd (the (process_with_unity
           (coordination [Waited, Interrupted] True True)
           sample_config sample_overrides two_consumers))))) = [5000]"
proof -
  have ent: "entered (coordination [Waited, Interrupted] True True) sample_config sample_overrides"
    by code_simp
  have run: "process_with_unity (coordination [Waited, Interrupted] True True)
      sample_config sample_overrides two_consumers
   = Some (None, two_consumers\<lparr>clients := [], server_socket := SockClosed\<rparr>,
       [CreateBridge, StartAcceptThread,
        Log INFO ''Starting Sports2D.process in a new thread...'',
        StartThread
          (PDict [(KStr (py_str ''base''), PDict [(KStr (py_str ''save_vid''), PBool False)]),
                (KStr (py_str ''logging''),
                 PDict [(KStr (py_str ''use_custom_logging''), PBool False)]),
                (KStr (py_str ''pose''), PDict [(KStr (py_str ''det_frequency''), PInt 5)]),
                (KStr (py_str ''process_callback_for_unity''), PObj 0)]),
        Join 500,
        Log INFO ''KeyboardInterrupt received. Shutting down bridge and Sports2D process.'',
        Log INFO ''Initiating shutdown of the bridge...'', CallClose,
        Log INFO ''Closing server socket and all client connections.'', Acquire,
        Shutdown 1 Done, CloseClient 1 Done, Shutdown 2 Done, CloseClient 2 Done,
        Release, CloseServer Done,
        Log INFO ''Sports2D process thread is still alive, waiting for it to join (max 5s)...'',
        Join 5000,
        Log WARNING ''Sports2D process thread did not terminate gracefully.'',
        Log INFO ''Sports2D Unity Bridge finished.''])"
    by code_simp
  have left: "thread_left (coordination [Waited, Interrupted] True True)"
    by code_simp
  from coordinator_closes_bridge[OF run ent] left ent run show ?thesis
    by simp
qed

text \<open>
  A thread that is alive after the close and ends within the grace period: the
  coordinator has waited, and logs no warning.
\<close>

lemma coordinator_grace_without_warning:
  "waits (after_close (snd (snd (the (process_with_unity (coordination [Interrupted] True False)
       sample_config sample_overrides two_consumers))))) = [5000]
   \<and> Log WARNING ''Sports2D process thread did not terminate gracefully.''
       \<notin> set (snd (snd (the (process_with_unity (coordination [Interrupted] True False)
             sample_config sample_overrides two_consumers))))"
  by code_simp

text \<open>
  C9 fails on the code: a run can end without any \<^verbatim>\<open>close()\<close>. The lines before the
  \<^verbatim>\<open>try\<close> are not covered by the \<^verbatim>\<open>finally\<close>. Overrides whose \<^verbatim>\<open>'base'\<close> entry is \<^verbatim>\<open>None\<close>
  raise \<^verbatim>\<open>AttributeError\<close> there, and an external interrupt can arrive there: in both
  runs the bridge has been created and the accept thread started, the exception leaves
  \<^verbatim>\<open>process_with_unity\<close>, and the bridge is left as it was, open.
\<close>

theorem coordinator_exits_without_close:
  "process_with_unity (coordination [Waited, Dead] False False) sample_config
      (PDict [(KStr (py_str ''base''), PNone)]) two_consumers
     = Some (Some AttributeError, two_consumers, [CreateBridge, StartAcceptThread])
   \<and> process_with_unity
        ((coordination [Waited, Dead] False False)\<lparr>before_try := ready\<lparr>early_interrupt := True\<rparr>\<rparr>)
        sample_config sample_overrides two_consumers
     = Some (Some KeyboardInterrupt, two_consumers, [CreateBridge, StartAcceptThread])
   \<and> closes [CreateBridge, StartAcceptThread] = 0"
  by code_simp

text \<open>The other two ways out: the producer thread ends, and an exception in the try.\<close>

lemma coordinator_after_completion:
  "process_with_unity (coordination [Waited, Dead] False False)
      sample_config sample_overrides two_consumers
   = Some (None, two_consumers\<lparr>clients := [], server_socket := SockClosed\<rparr>,
       [CreateBridge, StartAcceptThread,
        Log INFO ''Starting Sports2D.process in a new thread...'',
        StartThread
          (PDict [(KStr (py_str ''base''), PDict [(KStr (py_str ''save_vid''), PBool False)]),
                (KStr (py_str ''logging''),
                 PDict [(KStr (py_str ''use_custom_logging''), PBool False)]),
                (KStr (py_str ''pose''), PDict [(KStr (py_str ''det_frequency''), PInt 5)]),
                (KStr (py_str ''process_callback_for_unity''), PObj 0)]),
        Join 500,
        Log INFO ''Initiating shutdown of the bridge...'', CallClose,
        Log INFO ''Closing server socket and all client connections.'', Acquire,
        Shutdown 1 Done, CloseClient 1 Done, Shutdown 2 Done, CloseClient 2 Done,
        Release, CloseServer Done,
        Log INFO ''Sports2D Unity Bridge finished.''])"
  by code_simp

lemma coordinator_after_failure:
  "process_with_unity (coordination [Failed] False False)
      sample_config sample_overrides two_consumers
   = Some (None, two_consumers\<lparr>clients := [], server_socket := SockClosed\<rparr>,
       [CreateBridge, StartAcceptThread,
        Log INFO ''Starting Sports2D.process in a new thread...'',
        StartThread
          (PDict [(KStr (py_str ''base''), PDict [(KStr (py_str ''save_vid''), PBool False)]),
                (KStr (py_str ''logging''),
                 PDict [(KStr (py_str ''use_custom_logging''), PBool False)]),
                (KStr (py_str ''pose''), PDict [(KStr (py_str ''det_frequency''), PInt 5)]),
                (KStr (py_str ''process_callback_for_unity''), PObj 0)]),
        Join 500,
        Log ERROR ''Error during Sports2D.process execution'', Traceback,
        Log INFO ''Initiating shutdown of the bridge...'', CallClose,
        Log INFO ''Closing server socket and all client connections.'', Acquire,
        Shutdown 1 Done, CloseClient 1 Done, Shutdown 2 Done, CloseClient 2 Done,
        Release, CloseServer Done,
        Log INFO ''Sports2D Unity Bridge finished.''])"
  by code_simp

end
